(* ===== verification/Prelude.thy ===== *)
theory Prelude
  imports Main "HOL-Library.Word" "HOL-Library.Multiset"
begin

text \<open>
  Shared vocabulary of the development: the machine-integer types of the C++ sources,
  the \<^verbatim>\<open>std::string\<close> search primitives the status-file parsers are built from,
  and the collections of lemmas that the component theories extend.
  \<^item> \<open>u8\<close>, \<open>u32\<close>, \<open>u64\<close> are \<^verbatim>\<open>uint8_t\<close>, \<^verbatim>\<open>uint32_t\<close>, \<^verbatim>\<open>uint64_t\<close>
    (\<open>+\<close> wraps); \<^verbatim>\<open>int32_t\<close> pids are \<open>int\<close>, since no arithmetic is done on them.
  \<^item> \<open>find_idx P xs\<close> is the first index whose element satisfies \<open>P\<close>;
    \<open>find_from\<close> starts the search at a position, as \<^verbatim>\<open>std::string::find\<close>,
    \<^verbatim>\<open>find_first_not_of\<close> and \<^verbatim>\<open>find(char, pos)\<close> do; \<open>None\<close> is \<^verbatim>\<open>npos\<close>.
  \<^item> \<open>find_sub s key\<close> is \<^verbatim>\<open>s.find(key)\<close>: the first position where \<open>key\<close> occurs.
  \<^item> \<open>cstr xs\<close> is what C reads from a NUL-terminated buffer: the characters up to
    the first NUL.
\<close>

type_synonym u8 = "8 word"
type_synonym u32 = "32 word"
type_synonym u64 = "64 word"

named_theorems search_simps "evaluation rules of the search primitives"
named_theorems setid_simps "unfolding rules of the SetId storage operations"
named_theorems packet_simps "unfolding rules of the packet builder"
named_theorems frame_simps "operations that leave the frame of the data-source state unchanged"

subsection \<open>Searching in lists and strings\<close>

fun find_idx :: "('a \<Rightarrow> bool) \<Rightarrow> 'a list \<Rightarrow> nat option" where
  "find_idx P [] = None"
| "find_idx P (x # xs) = (if P x then Some 0 else map_option Suc (find_idx P xs))"

definition find_from :: "('a \<Rightarrow> bool) \<Rightarrow> 'a list \<Rightarrow> nat \<Rightarrow> nat option" where
  "find_from P xs i = map_option (\<lambda>j. i + j) (find_idx P (drop i xs))"

fun find_sub_at :: "'a list \<Rightarrow> 'a list \<Rightarrow> nat \<Rightarrow> nat option" where
  "find_sub_at key [] i = (if key = [] then Some i else None)"
| "find_sub_at key (c # cs) i =
     (if take (length key) (c # cs) = key then Some i else find_sub_at key cs (Suc i))"

definition find_sub :: "'a list \<Rightarrow> 'a list \<Rightarrow> nat option" where
  "find_sub s key = find_sub_at key s 0"

definition substr :: "'a list \<Rightarrow> nat \<Rightarrow> nat \<Rightarrow> 'a list" where
  "substr s b n = take n (drop b s)"

definition cstr :: "char list \<Rightarrow> char list" where
  "cstr xs = takeWhile (\<lambda>c. c \<noteq> CHR 0x00) xs"

declare find_from_def [search_simps] find_sub_def [search_simps] substr_def [search_simps]

subsection \<open>Facts about the search primitives\<close>

lemma find_idx_None_iff [simp]: "find_idx P xs = None \<longleftrightarrow> (\<forall>x \<in> set xs. \<not> P x)"
  by (induction xs) auto

lemma find_idx_SomeD:
  "find_idx P xs = Some j \<Longrightarrow> j < length xs \<and> P (xs ! j) \<and> (\<forall>k < j. \<not> P (xs ! k))"
proof (induction xs arbitrary: j)
  case Nil
  then show ?case by simp
next
  case (Cons x xs)
  show ?case
  proof (cases "P x")
    case True
    with Cons.prems show ?thesis by simp
  next
    case False
    with Cons.prems obtain j' where j': "find_idx P xs = Some j'" and j: "j = Suc j'"
      by auto
    from Cons.IH [OF j'] False show ?thesis
      by (auto simp: j less_Suc_eq_0_disj)
  qed
qed

lemma find_from_SomeD:
  assumes "find_from P xs i = Some j"
  shows "i \<le> j \<and> j < length xs \<and> P (xs ! j) \<and> (\<forall>k. i \<le> k \<and> k < j \<longrightarrow> \<not> P (xs ! k))"
proof -
  from assms obtain d where d: "find_idx P (drop i xs) = Some d" and j: "j = i + d"
    by (auto simp: find_from_def)
  note f = find_idx_SomeD [OF d]
  have "\<not> P (xs ! k)" if "i \<le> k" "k < j" for k
    using f that by (auto simp: j dest: spec [of _ "k - i"])
  with f show ?thesis by (auto simp: j)
qed

lemma find_from_None_iff:
  "find_from P xs i = None \<longleftrightarrow> (\<forall>k. i \<le> k \<and> k < length xs \<longrightarrow> \<not> P (xs ! k))"
proof
  assume "find_from P xs i = None"
  then have none: "\<forall>x \<in> set (drop i xs). \<not> P x" by (simp add: find_from_def)
  show "\<forall>k. i \<le> k \<and> k < length xs \<longrightarrow> \<not> P (xs ! k)"
  proof (intro allI impI)
    fix k assume k: "i \<le> k \<and> k < length xs"
    then have "drop i xs ! (k - i) = xs ! k" and "k - i < length (drop i xs)" by auto
    then have "xs ! k \<in> set (drop i xs)" by (metis nth_mem)
    with none show "\<not> P (xs ! k)" by blast
  qed
next
  assume "\<forall>k. i \<le> k \<and> k < length xs \<longrightarrow> \<not> P (xs ! k)"
  then have "\<forall>x \<in> set (drop i xs). \<not> P x"
    by (auto simp: in_set_conv_nth)
  then show "find_from P xs i = None" by (simp add: find_from_def)
qed

lemma find_sub_at_SomeD:
  "find_sub_at key s i = Some j \<Longrightarrow> \<exists>d. j = i + d \<and> take (length key) (drop d s) = key"
proof (induction key s i rule: find_sub_at.induct)
  case (1 key i)
  then show ?case by (auto split: if_splits)
next
  case (2 key c cs i)
  show ?case
  proof (cases "take (length key) (c # cs) = key")
    case True
    with "2.prems" show ?thesis by (auto intro: exI [of _ 0])
  next
    case False
    with "2.prems" "2.IH" obtain d where "j = Suc i + d" "take (length key) (drop d cs) = key"
      by auto
    then show ?thesis by (auto intro: exI [of _ "Suc d"])
  qed
qed

lemma cstr_no_nul: "CHR 0x00 \<notin> set (cstr xs)"
  by (auto simp: cstr_def dest: set_takeWhileD)

lemma cstr_append_nul [simp]: "CHR 0x00 \<notin> set xs \<Longrightarrow> cstr (xs @ CHR 0x00 # ys) = xs"
  unfolding cstr_def by (subst takeWhile_append2) auto

lemma cstr_snoc_nul [simp]: "cstr (xs @ [CHR 0x00]) = cstr xs"
  unfolding cstr_def by (induction xs) auto

subsection \<open>Errors as values\<close>

text \<open>A fallible step returns \<open>Inl\<close> its fault or \<open>Inr\<close> its result; \<open>bind_sum\<close>
  runs the next step on a result and passes a fault on.\<close>

definition bind_sum :: "'e + 'a \<Rightarrow> ('a \<Rightarrow> 'e + 'b) \<Rightarrow> 'e + 'b" where
  "bind_sum x f = (case x of Inl e \<Rightarrow> Inl e | Inr a \<Rightarrow> f a)"

lemma bind_sum_simps [simp]: "bind_sum (Inl e) f = Inl e" "bind_sum (Inr a) f = f a"
  by (simp_all add: bind_sum_def)

lemma bind_sum_eq_Inr:
  "bind_sum x f = Inr b \<longleftrightarrow> (\<exists>a. x = Inr a \<and> f a = Inr b)"
  by (cases x) simp_all

definition map_emplace :: "('a \<rightharpoonup> 'b) \<Rightarrow> 'a \<Rightarrow> 'b \<Rightarrow> ('a \<rightharpoonup> 'b)" where
  "map_emplace m k v = (if m k = None then m(k \<mapsto> v) else m)"

lemma map_emplace_dom [simp]: "dom (map_emplace m k v) = insert k (dom m)"
  by (auto simp: map_emplace_def)

end
