(* ===== verification/SetIdStorage.thy ===== *)
theory SetIdStorage
  imports Prelude
begin

unbundle bit_operations_syntax

text \<open>
  The SetId column storage of the trace processor
  (\<^verbatim>\<open>src/trace_processor/db/storage/set_id_storage.h\<close>, class \<^verbatim>\<open>SetIdStorage\<close>).
  The header declares the class, its one field \<^verbatim>\<open>vals\<close> and the inline
  \<^verbatim>\<open>size()\<close>; the bodies of \<^verbatim>\<open>Search\<close>, \<^verbatim>\<open>IndexSearch\<close>, \<^verbatim>\<open>Sort\<close>,
  \<^verbatim>\<open>StableSort\<close> and \<^verbatim>\<open>Serialize\<close> live in \<^verbatim>\<open>set_id_storage.cc\<close>, which is not
  among the sources, and are modelled from the specification (sections 3 and 4).
  \<^item> \<open>set_id_storage\<close> is the class, \<open>vals\<close> the column (\<^verbatim>\<open>uint32_t\<close> per row);
  \<^item> \<open>lower_search\<close> is the binary-search kernel (first position of a monotone
    predicate), \<open>lower_bound\<close>/\<open>upper_bound\<close> its two uses, \<open>narrow\<close> the
    invariant-based lower limit \<open>value[i] \<le> i\<close> allows;
  \<^item> \<open>search\<close> (\<^verbatim>\<open>Search\<close>), \<open>index_search\<close> (\<^verbatim>\<open>IndexSearch\<close>),
    \<open>setid_sort\<close> (\<^verbatim>\<open>Sort\<close>, an unstable quicksort), \<open>setid_stable_sort\<close>
    (\<^verbatim>\<open>StableSort\<close>, a merge sort);
  \<^item> \<open>matches\<close> is the meaning of a filter predicate on one value, against which
    every search is proved.
\<close>

subsection \<open>The column and its invariant\<close>

record set_id_storage =
  vals :: "u32 list"

definition storage_size :: "set_id_storage \<Rightarrow> u32" where
  "storage_size st = of_nat (length (vals st))"

fun ids_bounded :: "nat \<Rightarrow> u32 list \<Rightarrow> bool" where
  "ids_bounded i [] = True"
| "ids_bounded i (v # vs) = (unat v \<le> i \<and> ids_bounded (Suc i) vs)"

definition setid_invariant :: "u32 list \<Rightarrow> bool" where
  "setid_invariant vs \<longleftrightarrow> sorted vs \<and> ids_bounded 0 vs"

subsection \<open>Predicates and results\<close>

datatype filter_op = kEq | kNe | kGt | kLt | kGe | kLe | kIsNull | kIsNotNull

datatype sql_value = SqlNull | SqlLong int

record range =
  rstart :: nat
  rend :: nat

definition empty_range :: range where
  "empty_range = \<lparr>rstart = 0, rend = 0\<rparr>"

datatype range_or_bitvector = RangeResult range | BitVectorResult "bool list"

fun positions :: "range_or_bitvector \<Rightarrow> nat set" where
  "positions (RangeResult r) = {rstart r..<rend r}"
| "positions (BitVectorResult bv) = {i. i < length bv \<and> bv ! i}"

lemma positions_code [code]:
  "positions (RangeResult r) = set [rstart r..<rend r]"
  "positions (BitVectorResult bv) = set (filter (\<lambda>i. bv ! i) [0..<length bv])"
  by auto

fun matches :: "filter_op \<Rightarrow> sql_value \<Rightarrow> u32 \<Rightarrow> bool" where
  "matches kIsNull _ _ = False"
| "matches kIsNotNull _ _ = True"
| "matches _ SqlNull _ = False"
| "matches kEq (SqlLong t) x = (uint x = t)"
| "matches kNe (SqlLong t) x = (uint x \<noteq> t)"
| "matches kGt (SqlLong t) x = (t < uint x)"
| "matches kLt (SqlLong t) x = (uint x < t)"
| "matches kGe (SqlLong t) x = (t \<le> uint x)"
| "matches kLe (SqlLong t) x = (uint x \<le> t)"

subsection \<open>The binary-search kernel\<close>

function lower_search :: "(nat \<Rightarrow> bool) \<Rightarrow> nat \<Rightarrow> nat \<Rightarrow> nat" where
  "lower_search p lo hi =
     (if lo < hi then
        (let mid = lo + (hi - lo) div 2 in
         if p mid then lower_search p lo mid else lower_search p (Suc mid) hi)
      else lo)"
  by pat_completeness auto
termination
  by (relation "measure (\<lambda>(p, lo, hi). hi - lo)") (auto simp: Let_def)

declare lower_search.simps [simp del]

function linear_first :: "(nat \<Rightarrow> bool) \<Rightarrow> nat \<Rightarrow> nat \<Rightarrow> nat" where
  "linear_first p lo hi = (if lo < hi \<and> \<not> p lo then linear_first p (Suc lo) hi else lo)"
  by pat_completeness auto
termination
  by (relation "measure (\<lambda>(p, lo, hi). hi - lo)") auto

declare linear_first.simps [simp del]

definition mono_between :: "(nat \<Rightarrow> bool) \<Rightarrow> nat \<Rightarrow> nat \<Rightarrow> bool" where
  "mono_between p lo hi \<longleftrightarrow> (\<forall>i j. lo \<le> i \<longrightarrow> i \<le> j \<longrightarrow> j < hi \<longrightarrow> p i \<longrightarrow> p j)"

definition threshold :: "(nat \<Rightarrow> bool) \<Rightarrow> nat \<Rightarrow> nat \<Rightarrow> nat \<Rightarrow> bool" where
  "threshold p lo hi r \<longleftrightarrow> lo \<le> r \<and> r \<le> hi \<and> (\<forall>i. lo \<le> i \<and> i < hi \<longrightarrow> (p i \<longleftrightarrow> r \<le> i))"

lemma mono_between_sub:
  "mono_between p lo hi \<Longrightarrow> lo \<le> lo' \<Longrightarrow> hi' \<le> hi \<Longrightarrow> mono_between p lo' hi'"
  unfolding mono_between_def by (meson order_trans order_less_le_trans)

lemma threshold_unique:
  assumes "threshold p lo hi r1" "threshold p lo hi r2"
  shows "r1 = r2"
proof (rule ccontr)
  assume "r1 \<noteq> r2"
  then consider "r1 < r2" | "r2 < r1" by linarith
  then show False
  proof cases
    case 1
    with assms have "p r1 \<longleftrightarrow> r1 \<le> r1" "p r1 \<longleftrightarrow> r2 \<le> r1"
      by (auto simp: threshold_def)
    with 1 show False by simp
  next
    case 2
    with assms have "p r2 \<longleftrightarrow> r1 \<le> r2" "p r2 \<longleftrightarrow> r2 \<le> r2"
      by (auto simp: threshold_def)
    with 2 show False by simp
  qed
qed
lemma mono_betweenD:
  "mono_between p lo hi \<Longrightarrow> lo \<le> i \<Longrightarrow> i \<le> j \<Longrightarrow> j < hi \<Longrightarrow> p i \<Longrightarrow> p j"
  unfolding mono_between_def by blast

lemma lower_search_threshold:
  "lo \<le> hi \<Longrightarrow> mono_between p lo hi \<Longrightarrow> threshold p lo hi (lower_search p lo hi)"
proof (induction p lo hi rule: lower_search.induct)
  case (1 p lo hi)
  show ?case
  proof (cases "lo < hi")
    case False
    then have "lower_search p lo hi = lo"
      by (simp add: lower_search.simps [of p lo hi])
    with False "1.prems" show ?thesis
      by (auto simp: threshold_def)
  next
    case True
    define mid where "mid = lo + (hi - lo) div 2"
    have mid: "lo \<le> mid" "mid < hi" using True by (auto simp: mid_def)
    show ?thesis
    proof (cases "p mid")
      case pm: True
      have eq: "lower_search p lo hi = lower_search p lo mid"
        using True pm by (simp add: lower_search.simps [of p lo hi] mid_def Let_def)
      have "mono_between p lo mid"
        using "1.prems"(2) by (rule mono_between_sub) (use mid in auto)
      then have th: "threshold p lo mid (lower_search p lo mid)"
        using "1.IH"(1) [OF True mid_def pm] mid by simp
      have up: "p i" if "mid \<le> i" "i < hi" for i
        using mono_betweenD [OF "1.prems"(2) mid(1) that(1) that(2) pm] .
      show ?thesis
        unfolding threshold_def eq
      proof (intro conjI allI impI)
        show "lo \<le> lower_search p lo mid" "lower_search p lo mid \<le> hi"
          using th mid by (auto simp: threshold_def)
      next
        fix i assume i: "lo \<le> i \<and> i < hi"
        show "p i \<longleftrightarrow> lower_search p lo mid \<le> i"
        proof (cases "i < mid")
          case True
          with th i show ?thesis by (simp add: threshold_def)
        next
          case False
          with th i up show ?thesis by (simp add: threshold_def)
        qed
      qed
    next
      case pm: False
      have eq: "lower_search p lo hi = lower_search p (Suc mid) hi"
        using True pm by (simp add: lower_search.simps [of p lo hi] mid_def Let_def)
      have "mono_between p (Suc mid) hi"
        using "1.prems"(2) by (rule mono_between_sub) (use mid in auto)
      then have th: "threshold p (Suc mid) hi (lower_search p (Suc mid) hi)"
        using "1.IH"(2) [OF True mid_def pm] mid by simp
      have down: "\<not> p i" if "lo \<le> i" "i \<le> mid" for i
        using mono_betweenD [OF "1.prems"(2) that(1) that(2) mid(2)] pm by blast
      show ?thesis
        unfolding threshold_def eq
      proof (intro conjI allI impI)
        show "lo \<le> lower_search p (Suc mid) hi" "lower_search p (Suc mid) hi \<le> hi"
          using th mid by (auto simp: threshold_def)
      next
        fix i assume i: "lo \<le> i \<and> i < hi"
        show "p i \<longleftrightarrow> lower_search p (Suc mid) hi \<le> i"
        proof (cases "i \<le> mid")
          case True
          with th i down show ?thesis by (simp add: threshold_def)
        next
          case False
          with th i show ?thesis by (simp add: threshold_def)
        qed
      qed
    qed
  qed
qed

lemma linear_first_threshold:
  "lo \<le> hi \<Longrightarrow> mono_between p lo hi \<Longrightarrow> threshold p lo hi (linear_first p lo hi)"
proof (induction p lo hi rule: linear_first.induct)
  case (1 p lo hi)
  show ?case
  proof (cases "lo < hi \<and> \<not> p lo")
    case True
    have eq: "linear_first p lo hi = linear_first p (Suc lo) hi"
      using True by (simp add: linear_first.simps [of p lo hi])
    have "mono_between p (Suc lo) hi"
      using "1.prems"(2) by (rule mono_between_sub) auto
    with True have th: "threshold p (Suc lo) hi (linear_first p (Suc lo) hi)"
      using "1.IH" by simp
    have "p i \<longleftrightarrow> linear_first p (Suc lo) hi \<le> i" if "lo \<le> i" "i < hi" for i
    proof (cases "i = lo")
      case True
      with th \<open>lo < hi \<and> \<not> p lo\<close> show ?thesis by (auto simp: threshold_def)
    next
      case False
      with th that show ?thesis by (auto simp: threshold_def)
    qed
    with th show ?thesis
      by (auto simp: threshold_def eq)
  next
    case False
    have eq: "linear_first p lo hi = lo"
      by (subst linear_first.simps) (use False in auto)
    have "p i" if "lo \<le> i" "i < hi" for i
    proof -
      from False that have "p lo" by simp
      with that show ?thesis using mono_betweenD [OF "1.prems"(2)] by blast
    qed
    with "1.prems"(1) show ?thesis
      by (auto simp: threshold_def eq)
  qed
qed
subsection \<open>Boundary searches and Search\<close>

definition word_cmp :: "filter_op \<Rightarrow> u32 \<Rightarrow> u32 \<Rightarrow> bool" where
  "word_cmp op x w =
     (case op of kEq \<Rightarrow> x = w | kNe \<Rightarrow> x \<noteq> w | kGt \<Rightarrow> w < x | kLt \<Rightarrow> x < w
      | kGe \<Rightarrow> w \<le> x | kLe \<Rightarrow> x \<le> w | kIsNull \<Rightarrow> False | kIsNotNull \<Rightarrow> True)"

definition lower_bound :: "(nat \<Rightarrow> u32) \<Rightarrow> u32 \<Rightarrow> nat \<Rightarrow> nat \<Rightarrow> nat" where
  "lower_bound f w lo hi = lower_search (\<lambda>i. w \<le> f i) lo hi"

definition upper_bound :: "(nat \<Rightarrow> u32) \<Rightarrow> u32 \<Rightarrow> nat \<Rightarrow> nat \<Rightarrow> nat" where
  "upper_bound f w lo hi = lower_search (\<lambda>i. w < f i) lo hi"

definition narrow :: "u32 \<Rightarrow> range \<Rightarrow> nat" where
  "narrow w r = max (rstart r) (min (unat w) (rend r))"

fun binary_search_intrinsic :: "(nat \<Rightarrow> u32) \<Rightarrow> nat \<Rightarrow> filter_op \<Rightarrow> u32 \<Rightarrow> range \<Rightarrow> range" where
  "binary_search_intrinsic f lo kEq w r =
     \<lparr>rstart = lower_bound f w lo (rend r), rend = upper_bound f w lo (rend r)\<rparr>"
| "binary_search_intrinsic f lo kLe w r = \<lparr>rstart = rstart r, rend = upper_bound f w lo (rend r)\<rparr>"
| "binary_search_intrinsic f lo kLt w r = \<lparr>rstart = rstart r, rend = lower_bound f w lo (rend r)\<rparr>"
| "binary_search_intrinsic f lo kGe w r = \<lparr>rstart = lower_bound f w lo (rend r), rend = rend r\<rparr>"
| "binary_search_intrinsic f lo kGt w r = \<lparr>rstart = upper_bound f w lo (rend r), rend = rend r\<rparr>"
| "binary_search_intrinsic f lo _ w r = empty_range"

definition ne_bitvector :: "range \<Rightarrow> range \<Rightarrow> range_or_bitvector" where
  "ne_bitvector eq r =
     BitVectorResult (map (\<lambda>i. rstart r \<le> i \<and> \<not> (rstart eq \<le> i \<and> i < rend eq)) [0..<rend r])"

fun below_domain :: "filter_op \<Rightarrow> range \<Rightarrow> range_or_bitvector" where
  "below_domain kNe r = RangeResult r"
| "below_domain kGt r = RangeResult r"
| "below_domain kGe r = RangeResult r"
| "below_domain _ r = RangeResult empty_range"

fun above_domain :: "filter_op \<Rightarrow> range \<Rightarrow> range_or_bitvector" where
  "above_domain kNe r = RangeResult r"
| "above_domain kLt r = RangeResult r"
| "above_domain kLe r = RangeResult r"
| "above_domain _ r = RangeResult empty_range"

definition search_with ::
  "(nat \<Rightarrow> u32) \<Rightarrow> (u32 \<Rightarrow> nat) \<Rightarrow> filter_op \<Rightarrow> sql_value \<Rightarrow> range \<Rightarrow> range_or_bitvector" where
  "search_with f lo op v r =
     (if op = kIsNull then RangeResult empty_range
      else if op = kIsNotNull then RangeResult r
      else case v of
        SqlNull \<Rightarrow> RangeResult empty_range
      | SqlLong t \<Rightarrow>
          if t < 0 then below_domain op r
          else if 2 ^ 32 \<le> t then above_domain op r
          else
            let w = word_of_int t in
            if op = kNe then ne_bitvector (binary_search_intrinsic f (lo w) kEq w r) r
            else RangeResult (binary_search_intrinsic f (lo w) op w r))"

definition search :: "set_id_storage \<Rightarrow> filter_op \<Rightarrow> sql_value \<Rightarrow> range \<Rightarrow> range_or_bitvector" where
  "search st op v r = search_with (\<lambda>i. vals st ! i) (\<lambda>w. narrow w r) op v r"

definition sorted_between :: "(nat \<Rightarrow> u32) \<Rightarrow> nat \<Rightarrow> nat \<Rightarrow> bool" where
  "sorted_between f s e \<longleftrightarrow> (\<forall>i j. s \<le> i \<longrightarrow> i \<le> j \<longrightarrow> j < e \<longrightarrow> f i \<le> f j)"

definition narrow_ok :: "(nat \<Rightarrow> u32) \<Rightarrow> (u32 \<Rightarrow> nat) \<Rightarrow> range \<Rightarrow> bool" where
  "narrow_ok f lo r \<longleftrightarrow>
     (\<forall>w. rstart r \<le> lo w \<and> lo w \<le> rend r \<and> (\<forall>i. rstart r \<le> i \<and> i < lo w \<longrightarrow> f i < w))"

lemma narrowed_threshold:
  assumes "mono_between p lo hi" "s \<le> lo" "lo \<le> hi" "\<And>i. s \<le> i \<Longrightarrow> i < lo \<Longrightarrow> \<not> p i"
  shows "threshold p s hi (lower_search p lo hi)"
proof -
  let ?r = "lower_search p lo hi"
  have th: "threshold p lo hi ?r"
    by (rule lower_search_threshold [OF assms(3,1)])
  have "p i \<longleftrightarrow> ?r \<le> i" if "s \<le> i" "i < hi" for i
  proof (cases "i < lo")
    case True
    with th assms(4) [OF that(1)] show ?thesis by (simp add: threshold_def)
  next
    case False
    with th that show ?thesis by (simp add: threshold_def)
  qed
  with th assms(2) show ?thesis by (simp add: threshold_def)
qed

lemma sorted_between_mono:
  assumes "sorted_between f s e"
  shows "mono_between (\<lambda>i. w \<le> f i) s e" and "mono_between (\<lambda>i. w < f i) s e"
  using assms unfolding sorted_between_def mono_between_def
  by (meson order_trans order_less_le_trans)+

lemma bounds_threshold:
  assumes "sorted_between f (rstart r) (rend r)" "narrow_ok f lo r"
  shows "threshold (\<lambda>i. w \<le> f i) (rstart r) (rend r) (lower_bound f w (lo w) (rend r))"
    and "threshold (\<lambda>i. w < f i) (rstart r) (rend r) (upper_bound f w (lo w) (rend r))"
proof -
  from assms(2) have lo: "rstart r \<le> lo w" "lo w \<le> rend r"
    and below: "\<And>i. rstart r \<le> i \<Longrightarrow> i < lo w \<Longrightarrow> f i < w"
    by (auto simp: narrow_ok_def)
  have m1: "mono_between (\<lambda>i. w \<le> f i) (lo w) (rend r)"
    and m2: "mono_between (\<lambda>i. w < f i) (lo w) (rend r)"
    using sorted_between_mono [OF assms(1)] lo by (auto intro: mono_between_sub)
  show "threshold (\<lambda>i. w \<le> f i) (rstart r) (rend r) (lower_bound f w (lo w) (rend r))"
    unfolding lower_bound_def
    by (rule narrowed_threshold [OF m1 lo]) (use below in force)
  show "threshold (\<lambda>i. w < f i) (rstart r) (rend r) (upper_bound f w (lo w) (rend r))"
    unfolding upper_bound_def
    by (rule narrowed_threshold [OF m2 lo]) (use below in force)
qed


lemma uint_word_of_int_dom:
  "0 \<le> t \<Longrightarrow> t < 2 ^ 32 \<Longrightarrow> uint (word_of_int t :: u32) = t"
  by (simp add: uint_word_of_int)

lemma matches_word_cmp:
  assumes "0 \<le> t" "t < 2 ^ 32"
  shows "matches op (SqlLong t) x = word_cmp op x (word_of_int t)"
proof -
  have u: "uint (word_of_int t :: u32) = t" by (rule uint_word_of_int_dom [OF assms])
  show ?thesis
    by (cases op) (auto simp: word_cmp_def word_le_def word_less_def word_uint_eq_iff u)
qed

lemma intrinsic_positions:
  assumes "sorted_between f (rstart r) (rend r)" "narrow_ok f lo r"
    and "op \<noteq> kIsNull" "op \<noteq> kIsNotNull"
  shows "positions (if op = kNe then ne_bitvector (binary_search_intrinsic f (lo w) kEq w r) r
                    else RangeResult (binary_search_intrinsic f (lo w) op w r))
         = {i. rstart r \<le> i \<and> i < rend r \<and> word_cmp op (f i) w}"
proof -
  let ?lb = "lower_bound f w (lo w) (rend r)" and ?ub = "upper_bound f w (lo w) (rend r)"
  note lb = bounds_threshold(1) [OF assms(1,2), of w]
  note ub = bounds_threshold(2) [OF assms(1,2), of w]
  have eq_iff: "f i = w \<longleftrightarrow> w \<le> f i \<and> \<not> w < f i" for i
    by auto
  show ?thesis
  proof (cases op)
    case kEq
    with lb ub show ?thesis
      by (auto simp: threshold_def word_cmp_def eq_iff)
  next
    case kNe
    with lb ub show ?thesis
      by (auto simp: threshold_def word_cmp_def ne_bitvector_def eq_iff)
  next
    case kGt
    with ub show ?thesis
      by (auto simp: threshold_def word_cmp_def)
  next
    case kLt
    with lb show ?thesis
      by (auto simp: threshold_def word_cmp_def not_le)
  next
    case kGe
    with lb show ?thesis
      by (auto simp: threshold_def word_cmp_def)
  next
    case kLe
    with ub show ?thesis
      by (auto simp: threshold_def word_cmp_def not_less)
  qed (use assms in auto)
qed


lemma search_with_positions:
  assumes "sorted_between f (rstart r) (rend r)" "narrow_ok f lo r"
  shows "positions (search_with f lo op v r) = {i. rstart r \<le> i \<and> i < rend r \<and> matches op v (f i)}"
proof (cases "op = kIsNull \<or> op = kIsNotNull")
  case True
  then show ?thesis by (auto simp: search_with_def empty_range_def)
next
  case nn: False
  show ?thesis
  proof (cases v)
    case SqlNull
    with nn show ?thesis by (cases op) (auto simp: search_with_def empty_range_def)
  next
    case (SqlLong t)
    have lo: "0 \<le> uint x" and hi: "uint x < 2 ^ 32" for x :: u32
      using uint_bounded [of x] by simp_all
    consider "t < 0" | "0 \<le> t" "2 ^ 32 \<le> t" | "0 \<le> t" "t < 2 ^ 32" by linarith
    then show ?thesis
    proof cases
      case 1
      have "t < uint x" "\<not> uint x < t" "\<not> uint x \<le> t" "t \<le> uint x" "uint x \<noteq> t" for x :: u32
        using 1 lo [of x] by linarith+
      with nn SqlLong 1 show ?thesis
        by (cases op) (auto simp: search_with_def empty_range_def)
    next
      case 2
      have "uint x < t" "\<not> t < uint x" "\<not> t \<le> uint x" "uint x \<le> t" "uint x \<noteq> t" for x :: u32
        using 2 hi [of x] by linarith+
      with nn SqlLong 2 show ?thesis
        by (cases op) (auto simp: search_with_def empty_range_def)
    next
      case 3
      then have "positions (search_with f lo op v r) =
                 {i. rstart r \<le> i \<and> i < rend r \<and> word_cmp op (f i) (word_of_int t)}"
        using nn SqlLong intrinsic_positions [OF assms, of op]
        by (simp add: search_with_def Let_def)
      with 3 SqlLong show ?thesis by (simp add: matches_word_cmp)
    qed
  qed
qed

lemma ids_bounded_iff: "ids_bounded k vs \<longleftrightarrow> (\<forall>i < length vs. unat (vs ! i) \<le> k + i)"
proof (induction vs arbitrary: k)
  case Nil
  then show ?case by simp
next
  case (Cons v vs)
  show ?case
    by (auto simp: Cons.IH nth_Cons' less_Suc_eq_0_disj)
qed

lemma setid_value_below:
  assumes "setid_invariant vs" "i < length vs" "i < unat w"
  shows "vs ! i < w"
proof -
  from assms(1,2) have "unat (vs ! i) \<le> i"
    by (simp add: setid_invariant_def ids_bounded_iff)
  with assms(3) show ?thesis by (simp add: word_less_nat_alt)
qed

lemma setid_sorted_between:
  "setid_invariant vs \<Longrightarrow> e \<le> length vs \<Longrightarrow> sorted_between (\<lambda>i. vs ! i) s e"
  by (auto simp: setid_invariant_def sorted_between_def sorted_iff_nth_mono)

lemma setid_narrow_ok:
  assumes "setid_invariant vs" "rstart r \<le> rend r" "rend r \<le> length vs"
  shows "narrow_ok (\<lambda>i. vs ! i) (\<lambda>w. narrow w r) r"
  unfolding narrow_ok_def narrow_def
  using assms setid_value_below [OF assms(1)] by auto

lemma search_positions:
  assumes "setid_invariant (vals st)" "rstart r \<le> rend r" "rend r \<le> length (vals st)"
  shows "positions (search st op v r) =
           {i. rstart r \<le> i \<and> i < rend r \<and> matches op v (vals st ! i)}"
  unfolding search_def
  by (rule search_with_positions [OF setid_sorted_between [OF assms(1,3)] setid_narrow_ok [OF assms]])


fun eval_op :: "filter_op \<Rightarrow> sql_value \<Rightarrow> u32 \<Rightarrow> bool" where
  "eval_op kIsNull _ _ = False"
| "eval_op kIsNotNull _ _ = True"
| "eval_op _ SqlNull _ = False"
| "eval_op op (SqlLong t) x =
     (if t < 0 then op = kNe \<or> op = kGt \<or> op = kGe
      else if 2 ^ 32 \<le> t then op = kNe \<or> op = kLt \<or> op = kLe
      else word_cmp op x (word_of_int t))"

definition index_search ::
  "set_id_storage \<Rightarrow> filter_op \<Rightarrow> sql_value \<Rightarrow> nat list \<Rightarrow> bool \<Rightarrow> range_or_bitvector" where
  "index_search st op v idx is_sorted =
     (if is_sorted
      then search_with (\<lambda>k. vals st ! (idx ! k)) (\<lambda>w. 0) op v \<lparr>rstart = 0, rend = length idx\<rparr>
      else BitVectorResult (map (\<lambda>i. eval_op op v (vals st ! i)) idx))"

definition reported :: "nat list \<Rightarrow> range_or_bitvector \<Rightarrow> nat set" where
  "reported idx res = (\<lambda>k. idx ! k) ` positions res"

lemma eval_op_matches: "eval_op op v x = matches op v x"
proof (cases "op = kIsNull \<or> op = kIsNotNull")
  case True
  then show ?thesis by auto
next
  case nn: False
  show ?thesis
  proof (cases v)
    case SqlNull
    with nn show ?thesis by (cases op) auto
  next
    case (SqlLong t)
    have lo: "0 \<le> uint x" and hi: "uint x < 2 ^ 32" for x :: u32
      using uint_bounded [of x] by simp_all
    consider "t < 0" | "0 \<le> t" "2 ^ 32 \<le> t" | "0 \<le> t" "t < 2 ^ 32" by linarith
    then show ?thesis
    proof cases
      case 1
      have "t < uint x" "\<not> uint x < t" "\<not> uint x \<le> t" "t \<le> uint x" "uint x \<noteq> t"
        using 1 lo [of x] by linarith+
      with nn SqlLong 1 show ?thesis by (cases op) auto
    next
      case 2
      have "uint x < t" "\<not> t < uint x" "\<not> t \<le> uint x" "uint x \<le> t" "uint x \<noteq> t"
        using 2 hi [of x] by linarith+
      with nn SqlLong 2 show ?thesis by (cases op) auto
    next
      case 3
      note m = matches_word_cmp [OF 3, of op x]
      with nn SqlLong 3 show ?thesis by (cases op) simp_all
    qed
  qed
qed

lemma index_search_unsorted_positions:
  "positions (index_search st op v idx False) =
     {k. k < length idx \<and> matches op v (vals st ! (idx ! k))}"
  by (auto simp: index_search_def eval_op_matches)

fun quicksort_rows :: "(nat \<Rightarrow> u32) \<Rightarrow> nat list \<Rightarrow> nat list" where
  "quicksort_rows f [] = []"
| "quicksort_rows f (p # xs) =
     quicksort_rows f (filter (\<lambda>x. f x \<le> f p) xs) @ [p] @
     quicksort_rows f (filter (\<lambda>x. f p < f x) xs)"

definition setid_sort :: "set_id_storage \<Rightarrow> nat list \<Rightarrow> nat list" where
  "setid_sort st rows = quicksort_rows (\<lambda>r. vals st ! r) rows"

fun merge_rows :: "(nat \<Rightarrow> u32) \<Rightarrow> nat list \<Rightarrow> nat list \<Rightarrow> nat list" where
  "merge_rows f [] ys = ys"
| "merge_rows f xs [] = xs"
| "merge_rows f (x # xs) (y # ys) =
     (if f y < f x then y # merge_rows f (x # xs) ys else x # merge_rows f xs (y # ys))"

fun msort_rows :: "(nat \<Rightarrow> u32) \<Rightarrow> nat list \<Rightarrow> nat list" where
  "msort_rows f xs =
     (let n = length xs in
      if n \<le> 1 then xs
      else merge_rows f (msort_rows f (take (n div 2) xs)) (msort_rows f (drop (n div 2) xs)))"

declare msort_rows.simps [simp del]

definition setid_stable_sort :: "set_id_storage \<Rightarrow> nat list \<Rightarrow> nat list" where
  "setid_stable_sort st rows = msort_rows (\<lambda>r. vals st ! r) rows"

lemma mset_quicksort_rows: "mset (quicksort_rows f xs) = mset xs"
proof (induction f xs rule: quicksort_rows.induct)
  case (2 f p xs)
  have "mset (filter (\<lambda>x. f x \<le> f p) xs) + mset (filter (\<lambda>x. f p < f x) xs) = mset xs"
    by (metis (no_types, lifting) mset_filter multiset_partition not_le filter_mset_cong)
  with 2 show ?case by (simp add: add.commute add.left_commute)
qed simp

lemma set_quicksort_rows: "set (quicksort_rows f xs) = set xs"
  by (metis mset_quicksort_rows set_mset_mset)

lemma sorted_quicksort_rows: "sorted (map f (quicksort_rows f xs))"
proof (induction f xs rule: quicksort_rows.induct)
  case (2 f p xs)
  then show ?case
    by (auto simp: sorted_append set_quicksort_rows intro: order.trans)
qed simp

lemma mset_merge_rows: "mset (merge_rows f xs ys) = mset xs + mset ys"
  by (induction f xs ys rule: merge_rows.induct) auto

lemma set_merge_rows: "set (merge_rows f xs ys) = set xs \<union> set ys"
  by (metis mset_merge_rows set_mset_mset set_mset_union)

lemma sorted_merge_rows:
  "sorted (map f xs) \<Longrightarrow> sorted (map f ys) \<Longrightarrow> sorted (map f (merge_rows f xs ys))"
  by (induction f xs ys rule: merge_rows.induct) (auto simp: set_merge_rows not_less)

lemma filter_merge_rows:
  "sorted (map f xs) \<Longrightarrow> sorted (map f ys) \<Longrightarrow>
   filter (\<lambda>x. f x = c) (merge_rows f xs ys) = filter (\<lambda>x. f x = c) xs @ filter (\<lambda>x. f x = c) ys"
proof (induction f xs ys rule: merge_rows.induct)
  case (3 f x xs y ys)
  show ?case
  proof (cases "f y < f x")
    case True
    with "3.prems" have "\<forall>z \<in> set (x # xs). f y < f z"
      by (auto intro: order.strict_trans2)
    show ?thesis
    proof (cases "f y = c")
      case yc: True
      from \<open>\<forall>z \<in> set (x # xs). f y < f z\<close> yc
      have "filter (\<lambda>z. f z = c) xs = []" "f x \<noteq> c"
        by (auto simp: filter_empty_conv)
      with True "3.IH"(1) "3.prems" yc show ?thesis by simp
    next
      case False
      with True "3.IH"(1) "3.prems" show ?thesis by simp
    qed
  next
    case False
    with "3.IH"(2) "3.prems" show ?thesis by simp
  qed
qed simp_all

lemma msort_rows_props:
  "mset (msort_rows f xs) = mset xs \<and> sorted (map f (msort_rows f xs)) \<and>
   (\<forall>c. filter (\<lambda>x. f x = c) (msort_rows f xs) = filter (\<lambda>x. f x = c) xs)"
proof (induction f xs rule: msort_rows.induct)
  case (1 f xs)
  let ?n = "length xs"
  let ?l = "take (?n div 2) xs" and ?r = "drop (?n div 2) xs"
  show ?case
  proof (cases "?n \<le> 1")
    case True
    then show ?thesis by (simp add: msort_rows.simps [of f xs] sorted01)
  next
    case False
    then have eq: "msort_rows f xs = merge_rows f (msort_rows f ?l) (msort_rows f ?r)"
      by (simp add: msort_rows.simps [of f xs] Let_def)
    from False "1.IH" have l: "mset (msort_rows f ?l) = mset ?l \<and> sorted (map f (msort_rows f ?l)) \<and>
        (\<forall>c. filter (\<lambda>x. f x = c) (msort_rows f ?l) = filter (\<lambda>x. f x = c) ?l)"
      and r: "mset (msort_rows f ?r) = mset ?r \<and> sorted (map f (msort_rows f ?r)) \<and>
        (\<forall>c. filter (\<lambda>x. f x = c) (msort_rows f ?r) = filter (\<lambda>x. f x = c) ?r)"
      by (simp_all add: Let_def)
    have "mset (msort_rows f xs) = mset xs"
      using l r by (simp add: eq mset_merge_rows flip: mset_append)
    moreover have "sorted (map f (msort_rows f xs))"
      using l r by (simp add: eq sorted_merge_rows)
    moreover have "filter (\<lambda>x. f x = c) (msort_rows f xs) = filter (\<lambda>x. f x = c) xs" for c
      using l r by (simp add: eq filter_merge_rows flip: filter_append)
    ultimately show ?thesis by blast
  qed
qed

lemma msort_rows_sort_key: "msort_rows f xs = sort_key f xs"
proof (rule sym, rule properties_for_sort_key)
  show "mset (msort_rows f xs) = mset xs" "sorted (map f (msort_rows f xs))"
    using msort_rows_props by blast+
  fix k
  have "filter (\<lambda>x. f x = f k) (msort_rows f xs) = filter (\<lambda>x. f x = f k) xs"
    using msort_rows_props by blast
  then show "filter (\<lambda>x. f k = f x) (msort_rows f xs) = filter (\<lambda>x. f k = f x) xs"
    by (simp add: eq_commute)
qed

subsection \<open>Serialize\<close>

definition le_bytes :: "u32 \<Rightarrow> u8 list" where
  "le_bytes w = [ucast w, ucast (drop_bit 8 w), ucast (drop_bit 16 w), ucast (drop_bit 24 w)]"
definition from_le_bytes :: "u8 \<Rightarrow> u8 \<Rightarrow> u8 \<Rightarrow> u8 \<Rightarrow> u32" where
  "from_le_bytes a b c d =
     ucast a OR push_bit 8 (ucast b) OR push_bit 16 (ucast c) OR push_bit 24 (ucast d)"
lemma from_le_bytes_le_bytes:
  "from_le_bytes (ucast w) (ucast (drop_bit 8 w)) (ucast (drop_bit 16 w)) (ucast (drop_bit 24 w)) = w"
proof (rule bit_word_eqI)
  fix n assume "n < LENGTH(32)"
  then have n: "n < 32" by simp
  show "bit (from_le_bytes (ucast w) (ucast (drop_bit 8 w)) (ucast (drop_bit 16 w)) (ucast (drop_bit 24 w))) n \<longleftrightarrow> bit w n"
  proof -
    consider "n < 8" | "8 \<le> n" "n < 16" | "16 \<le> n" "n < 24" | "24 \<le> n" "n < 32"
      using n by linarith
    then show ?thesis
    proof cases
      case 1 then show ?thesis by (auto simp: from_le_bytes_def bit_simps)
    next
      case 2
      then have "8 + (n - 8) = n" by simp
      with 2 show ?thesis by (auto simp: from_le_bytes_def bit_simps)
    next
      case 3
      then have "16 + (n - 16) = n" by simp
      with 3 show ?thesis by (auto simp: from_le_bytes_def bit_simps)
    next
      case 4
      then have "24 + (n - 24) = n" by simp
      with 4 show ?thesis by (auto simp: from_le_bytes_def bit_simps)
    qed
  qed
qed
definition encode_values :: "u32 list \<Rightarrow> u8 list" where
  "encode_values vs = concat (map le_bytes vs)"

fun decode_values :: "u8 list \<Rightarrow> u32 list option" where
  "decode_values [] = Some []"
| "decode_values (a # b # c # d # rest) =
     map_option (Cons (from_le_bytes a b c d)) (decode_values rest)"
| "decode_values _ = None"

record sink =
  sink_data :: "u8 list"
  sink_room :: nat

datatype sink_error = SinkWriteFailed

definition sink_append :: "sink \<Rightarrow> u8 list \<Rightarrow> sink_error + sink" where
  "sink_append s bs =
     (if length bs \<le> sink_room s
      then Inr (s\<lparr>sink_data := sink_data s @ bs, sink_room := sink_room s - length bs\<rparr>)
      else Inl SinkWriteFailed)"

definition serialize :: "set_id_storage \<Rightarrow> sink \<Rightarrow> sink_error + sink" where
  "serialize st s = sink_append s (encode_values (vals st))"

lemma decode_encode_values: "decode_values (encode_values vs) = Some vs"
  by (induction vs) (simp_all add: encode_values_def le_bytes_def from_le_bytes_le_bytes)

lemma length_encode_values: "length (encode_values vs) = 4 * length vs"
  by (induction vs) (simp_all add: encode_values_def le_bytes_def)

lemma search_with_range_result:
  "op \<noteq> kNe \<Longrightarrow> \<exists>r'. search_with f lo op v r = RangeResult r'"
proof (cases v)
  case (SqlLong t)
  assume "op \<noteq> kNe"
  then show ?thesis
    using SqlLong by (cases op) (auto simp: search_with_def Let_def)
qed (auto simp: search_with_def)

lemma sorted_between_index:
  "sorted (map (\<lambda>i. vals st ! i) idx) \<Longrightarrow> sorted_between (\<lambda>k. vals st ! (idx ! k)) 0 (length idx)"
  by (auto simp: sorted_between_def sorted_iff_nth_mono)

definition example_storage :: set_id_storage where
  "example_storage = \<lparr>vals = [0, 0, 1, 1, 1, 4]\<rparr>"

definition run_start_ids :: "u32 list \<Rightarrow> bool" where
  "run_start_ids vs \<longleftrightarrow> (\<forall>i < length vs. unat (vs ! i) < length vs \<and> vs ! unat (vs ! i) = vs ! i)"

lemma example_storage_invariant: "setid_invariant (vals example_storage)"
  by (simp add: example_storage_def setid_invariant_def)

subsection \<open>Properties of the SetId storage\<close>

text \<open>
  C1. Search is correct: on a column that satisfies the SetId invariant and a row range
  inside the column, the positions \<open>search\<close> reports are exactly the rows of the
  range whose value satisfies the predicate; every operator but \<open>Ne\<close> answers
  with one contiguous range.
\<close>

theorem search_correct:
  assumes "setid_invariant (vals st)" "rstart r \<le> rend r" "rend r \<le> length (vals st)"
  shows "positions (search st op v r) =
           {i. rstart r \<le> i \<and> i < rend r \<and> matches op v (vals st ! i)}
         \<and> (op \<noteq> kNe \<longrightarrow> (\<exists>r'. search st op v r = RangeResult r'))"
  using search_positions [OF assms] search_with_range_result [of op]
  by (simp add: search_def)

theorem search_correct_witness:
  "positions (search example_storage kEq (SqlLong 1) \<lparr>rstart = 0, rend = 6\<rparr>) =
     {i. 0 \<le> i \<and> i < 6 \<and> matches kEq (SqlLong 1) (vals example_storage ! i)}
   \<and> (\<exists>r'. search example_storage kEq (SqlLong 1) \<lparr>rstart = 0, rend = 6\<rparr> = RangeResult r')"
  using search_correct [OF example_storage_invariant, of "\<lparr>rstart = 0, rend = 6\<rparr>" kEq "SqlLong 1"]
  by (simp add: example_storage_def)

text \<open>
  C2. The invariant-based shortcut is sound: the binary search for the first row
  with value \<open>\<ge> w\<close> (and \<open>> w\<close>), started at the narrowed position
  \<open>max start (min w end)\<close>, finds the same row as a linear scan of the whole range.
\<close>

theorem narrowed_bounds_eq_linear:
  assumes "setid_invariant (vals st)" "rstart r \<le> rend r" "rend r \<le> length (vals st)"
  shows "lower_bound (\<lambda>i. vals st ! i) w (narrow w r) (rend r) =
           linear_first (\<lambda>i. w \<le> vals st ! i) (rstart r) (rend r)
         \<and> upper_bound (\<lambda>i. vals st ! i) w (narrow w r) (rend r) =
           linear_first (\<lambda>i. w < vals st ! i) (rstart r) (rend r)"
proof -
  note sb = setid_sorted_between [OF assms(1,3), of "rstart r"]
  note nk = setid_narrow_ok [OF assms]
  have m: "mono_between (\<lambda>i. w \<le> vals st ! i) (rstart r) (rend r)"
          "mono_between (\<lambda>i. w < vals st ! i) (rstart r) (rend r)"
    using sorted_between_mono [OF sb] by blast+
  show ?thesis
    using threshold_unique [OF bounds_threshold(1) [OF sb nk] linear_first_threshold [OF assms(2) m(1)]]
      threshold_unique [OF bounds_threshold(2) [OF sb nk] linear_first_threshold [OF assms(2) m(2)]]
    by simp
qed

theorem narrowed_bounds_eq_linear_witness:
  "lower_bound (\<lambda>i. vals example_storage ! i) 1 (narrow 1 \<lparr>rstart = 0, rend = 6\<rparr>) 6 =
     linear_first (\<lambda>i. 1 \<le> vals example_storage ! i) 0 6
   \<and> upper_bound (\<lambda>i. vals example_storage ! i) 1 (narrow 1 \<lparr>rstart = 0, rend = 6\<rparr>) 6 =
     linear_first (\<lambda>i. 1 < vals example_storage ! i) 0 6"
  using narrowed_bounds_eq_linear [OF example_storage_invariant, of "\<lparr>rstart = 0, rend = 6\<rparr>" 1]
  by (simp add: example_storage_def)

text \<open>
  C3. Unsorted index search is order independent: the rows it reports (the indices at
  the positions of its bit vector) are exactly the supplied rows whose value satisfies
  the predicate, whatever the order and repetition of the supplied list.
\<close>

theorem index_search_unsorted_reported:
  "reported idx (index_search st op v idx False) = {i \<in> set idx. matches op v (vals st ! i)}"
  by (auto simp: reported_def index_search_unsorted_positions in_set_conv_nth)

text \<open>
  C4. When the supplied rows are sorted by value, the binary-search variant of
  IndexSearch reports the same positions of the list as the per-row scan.
\<close>

theorem index_search_sorted_equiv:
  assumes "sorted (map (\<lambda>i. vals st ! i) idx)"
  shows "positions (index_search st op v idx True) = positions (index_search st op v idx False)"
proof -
  let ?f = "\<lambda>k. vals st ! (idx ! k)" and ?r = "\<lparr>rstart = 0, rend = length idx\<rparr>"
  have "sorted_between ?f (rstart ?r) (rend ?r)"
    using sorted_between_index [OF assms] by simp
  moreover have "narrow_ok ?f (\<lambda>w. 0) ?r"
    by (simp add: narrow_ok_def)
  ultimately have "positions (index_search st op v idx True) =
      {k. k < length idx \<and> matches op v (vals st ! (idx ! k))}"
    by (simp add: index_search_def search_with_positions)
  then show ?thesis by (simp add: index_search_unsorted_positions)
qed


theorem index_search_sorted_equiv_witness:
  "positions (index_search example_storage kLe (SqlLong 1) [1, 2, 4, 5] True) =
   positions (index_search example_storage kLe (SqlLong 1) [1, 2, 4, 5] False)"
proof -
  have "sorted (map (\<lambda>i. vals example_storage ! i) [1, 2, 4, 5])"
    by (simp add: example_storage_def)
  then show ?thesis by (rule index_search_sorted_equiv)
qed

text \<open>
  C5. Sort orders the rows by value and keeps exactly the rows it was given
  (the multiset of the buffer is unchanged).
\<close>

theorem setid_sort_correct:
  "sorted (map (\<lambda>r. vals st ! r) (setid_sort st rows)) \<and> mset (setid_sort st rows) = mset rows"
  by (simp add: setid_sort_def sorted_quicksort_rows mset_quicksort_rows)

text \<open>
  C6. StableSort is a stable sort: it is the library's stable \<open>sort_key\<close> by value,
  so rows of equal value keep their relative order.
\<close>

theorem setid_stable_sort_stable:
  "setid_stable_sort st rows = sort_key (\<lambda>r. vals st ! r) rows
   \<and> (\<forall>k. filter (\<lambda>r. vals st ! r = k) (setid_stable_sort st rows) =
          filter (\<lambda>r. vals st ! r = k) rows)"
  by (simp add: setid_stable_sort_def msort_rows_sort_key sort_key_stable)

text \<open>
  C7. Serialize appends the whole column, in row order, to the sink, and reading the
  appended bytes back gives the column again.
\<close>

theorem serialize_roundtrip:
  assumes "serialize st s = Inr s'"
  shows "sink_data s' = sink_data s @ encode_values (vals st)
         \<and> decode_values (drop (length (sink_data s)) (sink_data s')) = Some (vals st)"
  using assms by (auto simp: serialize_def sink_append_def decode_encode_values split: if_splits)

theorem serialize_roundtrip_witness:
  "serialize example_storage \<lparr>sink_data = [], sink_room = 24\<rparr> =
     Inr \<lparr>sink_data = encode_values [0, 0, 1, 1, 1, 4], sink_room = 0\<rparr>
   \<and> decode_values (drop 0 (encode_values [0, 0, 1, 1, 1, 4])) = Some [0, 0, 1, 1, 1, 4]"
proof -
  have ok: "serialize example_storage \<lparr>sink_data = [], sink_room = 24\<rparr> =
     Inr \<lparr>sink_data = encode_values [0, 0, 1, 1, 1, 4], sink_room = 0\<rparr>"
    by (simp add: serialize_def sink_append_def example_storage_def length_encode_values)
  show ?thesis
    using ok serialize_roundtrip [OF ok] by (simp add: example_storage_def)
qed

text \<open>
  The worked example of the specification: on the column \<open>[0,0,1,1,1,4]\<close>,
  \<open>Eq 1\<close> gives the range \<open>[2,5)\<close>, \<open>Ge 4\<close> gives \<open>[5,6)\<close>, \<open>Lt 0\<close> is
  empty, and the unsorted index search for \<open>Eq 1\<close> over the reversed row list
  reports the rows \<open>{2,3,4}\<close>.
\<close>

theorem spec_worked_example:
  "search example_storage kEq (SqlLong 1) \<lparr>rstart = 0, rend = 6\<rparr> = RangeResult \<lparr>rstart = 2, rend = 5\<rparr>
   \<and> search example_storage kGe (SqlLong 4) \<lparr>rstart = 0, rend = 6\<rparr> = RangeResult \<lparr>rstart = 5, rend = 6\<rparr>
   \<and> positions (search example_storage kLt (SqlLong 0) \<lparr>rstart = 0, rend = 6\<rparr>) = {}
   \<and> reported [5, 4, 3, 2, 1, 0] (index_search example_storage kEq (SqlLong 1) [5, 4, 3, 2, 1, 0] False)
       = {2, 3, 4}"
  unfolding example_storage_def reported_def by code_simp

text \<open>
  The example column of the specification satisfies the invariant of section 3 but is
  not a column of set ids in the sense of its glossary: the run of \<open>1\<close>s starts at
  row 2, so its id would be 2.
\<close>

theorem example_not_run_start_ids:
  "setid_invariant (vals example_storage) \<and> \<not> run_start_ids (vals example_storage)"
  unfolding example_storage_def setid_invariant_def run_start_ids_def by code_simp

subsection \<open>Iterations of the binary search\<close>

text \<open>The loop of \<^verbatim>\<open>BinarySearchIntrinsic\<close> run for at most \<open>n\<close> iterations:
  \<open>None\<close> when it would need more.\<close>

fun lower_search_fuel :: "nat \<Rightarrow> (nat \<Rightarrow> bool) \<Rightarrow> nat \<Rightarrow> nat \<Rightarrow> nat option" where
  "lower_search_fuel 0 p lo hi = (if lo < hi then None else Some lo)"
| "lower_search_fuel (Suc n) p lo hi =
     (if lo < hi then
        (let mid = lo + (hi - lo) div 2 in
         if p mid then lower_search_fuel n p lo mid else lower_search_fuel n p (Suc mid) hi)
      else Some lo)"

text \<open>
  C32. The binary search returns within \<open>k\<close> iterations on a range of fewer than
  \<open>2^k\<close> rows, with the result of the search: Search is logarithmic in the width of
  its range.
\<close>

theorem lower_search_fuel_enough:
  "hi - lo < 2 ^ k \<Longrightarrow> lower_search_fuel k p lo hi = Some (lower_search p lo hi)"
proof (induction k arbitrary: lo hi)
  case 0
  then show ?case by (simp add: lower_search.simps [of p lo hi])
next
  case (Suc k)
  show ?case
  proof (cases "lo < hi")
    case False
    then show ?thesis by (simp add: lower_search.simps [of p lo hi])
  next
    case True
    define mid where "mid = lo + (hi - lo) div 2"
    have l: "mid - lo < 2 ^ k" and r: "hi - Suc mid < 2 ^ k"
      using Suc.prems True by (simp_all add: mid_def)
    show ?thesis
      using Suc.IH [OF l] Suc.IH [OF r] True
      by (simp add: lower_search.simps [of p lo hi] Let_def mid_def [symmetric])
  qed
qed

theorem lower_search_fuel_enough_witness:
  "lower_search_fuel 3 (\<lambda>i. (1::nat) \<le> [0, 0, 1, 1, 1, 4] ! i) 0 6 = Some 2"
proof -
  have "lower_search_fuel 3 (\<lambda>i. (1::nat) \<le> [0, 0, 1, 1, 1, 4] ! i) 0 6 =
        Some (lower_search (\<lambda>i. (1::nat) \<le> [0, 0, 1, 1, 1, 4] ! i) 0 6)"
    by (rule lower_search_fuel_enough) simp
  also have "lower_search (\<lambda>i. (1::nat) \<le> [0, 0, 1, 1, 1, 4] ! i) 0 6 = 2"
    by (simp add: lower_search.simps)
  finally show ?thesis .
qed

end
