(* ===== verification/StatusParse.thy ===== *)
theory StatusParse
  imports Prelude
begin

text \<open>
  The text helpers of \<^verbatim>\<open>src/traced/probes/ps/process_stats_data_source.cc\<close> that read
  procfs: \<^verbatim>\<open>ReadNextNumericDir\<close>, \<^verbatim>\<open>ToInt\<close>, \<^verbatim>\<open>ToU32\<close>,
  \<^verbatim>\<open>ReadProcStatusEntry\<close> and \<^verbatim>\<open>ReadNamespacedTids\<close>.
  The C library calls they make are modelled after the C standard: \<open>strtol\<close>
  (leading white space, an optional sign, decimal digits, saturation at the range of a
  64-bit \<^verbatim>\<open>long\<close>), \<^verbatim>\<open>atoi\<close> as glibc defines it (\<^verbatim>\<open>(int) strtol(s, NULL, 10)\<close>,
  the cast wrapping to 32 bits), and the perfetto base helpers \<^verbatim>\<open>CStringToInt32\<close>
  (the whole, non-empty string must be consumed by \<open>strtol\<close>) and
  \<^verbatim>\<open>StringSplitter\<close> (tokens between delimiters, empty tokens skipped).
  A directory stream is the list of entries \<^verbatim>\<open>readdir\<close> has still to return.
\<close>

subsection \<open>C library and base helpers\<close>

definition c_isspace :: "char \<Rightarrow> bool" where
  "c_isspace c \<longleftrightarrow> c = CHR 0x20 \<or> c = CHR 0x09 \<or> c = CHR 0x0A \<or> c = CHR 0x0B \<or> c = CHR 0x0C
     \<or> c = CHR 0x0D"

definition c_isdigit :: "char \<Rightarrow> bool" where
  "c_isdigit c \<longleftrightarrow> 48 \<le> (of_char c :: nat) \<and> (of_char c :: nat) \<le> 57"

fun digits_value :: "int \<Rightarrow> char list \<Rightarrow> int" where
  "digits_value acc [] = acc"
| "digits_value acc (c # cs) = digits_value (10 * acc + int (of_char c - 48)) cs"

definition long_min :: int where "long_min = - (2 ^ 63)"
definition long_max :: int where "long_max = 2 ^ 63 - 1"

text \<open>\<open>strtol s\<close> is the value and the number of characters consumed (0 when there
  are no digits, where \<^verbatim>\<open>endptr\<close> is left at the start).\<close>

definition strtol :: "char list \<Rightarrow> int \<times> nat" where
  "strtol s =
     (let nws = length (takeWhile c_isspace s);
          r = drop nws s;
          neg = (r \<noteq> [] \<and> hd r = CHR ''-'');
          nsign = (if r \<noteq> [] \<and> (hd r = CHR ''-'' \<or> hd r = CHR ''+'') then 1 else 0);
          ds = takeWhile c_isdigit (drop nsign r);
          v = digits_value 0 ds
      in if ds = [] then (0, 0)
         else (max long_min (min long_max (if neg then - v else v)), nws + nsign + length ds))"

definition to_int :: "char list \<Rightarrow> int" where
  "to_int s = sint (word_of_int (fst (strtol s)) :: 32 word)"

definition to_u32 :: "char list \<Rightarrow> u32" where
  "to_u32 s = word_of_int (fst (strtol s))"

definition cstring_to_int32 :: "char list \<Rightarrow> int option" where
  "cstring_to_int32 s =
     (if s \<noteq> [] \<and> snd (strtol s) = length s
      then Some (sint (word_of_int (fst (strtol s)) :: 32 word)) else None)"

fun split_on :: "char \<Rightarrow> char list \<Rightarrow> char list list" where
  "split_on d [] = [[]]"
| "split_on d (c # cs) =
     (let r = split_on d cs in if c = d then [] # r else (c # hd r) # tl r)"

definition string_splitter_tokens :: "char \<Rightarrow> char list \<Rightarrow> char list list" where
  "string_splitter_tokens d s = filter (\<lambda>t. t \<noteq> []) (split_on d s)"

subsection \<open>Directory streams\<close>

datatype d_type = DT_DIR | DT_LNK | DT_REG | DT_OTHER

record dirent =
  d_name :: "char list"
  d_type :: d_type

fun read_next_numeric_dir :: "dirent list \<Rightarrow> int \<times> dirent list" where
  "read_next_numeric_dir [] = (0, [])"
| "read_next_numeric_dir (e # es) =
     (if d_type e \<noteq> DT_DIR then read_next_numeric_dir es
      else case cstring_to_int32 (d_name e) of
             Some v \<Rightarrow> (v, es)
           | None \<Rightarrow> read_next_numeric_dir es)"

subsection \<open>Status files\<close>

definition read_proc_status_entry :: "char list \<Rightarrow> char list \<Rightarrow> char list" where
  "read_proc_status_entry buf key =
     (case find_sub buf key of
        None \<Rightarrow> []
      | Some b0 \<Rightarrow>
          (case find_from (\<lambda>c. c \<noteq> CHR 0x20 \<and> c \<noteq> CHR 0x09) buf (b0 + length key) of
             None \<Rightarrow> []
           | Some b \<Rightarrow>
               (case find_from (\<lambda>c. c = CHR 0x0A) buf b of
                  None \<Rightarrow> []
                | Some e \<Rightarrow> if e \<le> b then [] else substr buf b (e - b))))"

datatype nstid_error = CheckFailed | BadNamespacedTid

text \<open>\<open>read_namespaced_tids tid status out\<close> is the \<^verbatim>\<open>TidArray\<close> \<open>out\<close>
  (a \<^verbatim>\<open>std::array\<close> whose length the header fixes) after the call, or the fault:
  \<^verbatim>\<open>PERFETTO_CHECK(it < out.end())\<close> fails when there are more namespace levels
  than entries, and a token that is not a number is dereferenced as an empty
  \<^verbatim>\<open>std::optional\<close>.\<close>

fun write_tids :: "nat \<Rightarrow> char list list \<Rightarrow> int list \<Rightarrow> nstid_error + int list" where
  "write_tids k [] out = Inr out"
| "write_tids k (t # ts) out =
     (if length out \<le> k then Inl CheckFailed
      else case cstring_to_int32 t of
             None \<Rightarrow> Inl BadNamespacedTid
           | Some v \<Rightarrow> write_tids (Suc k) ts (out[k := v]))"

definition read_namespaced_tids ::
  "int \<Rightarrow> char list \<Rightarrow> int list \<Rightarrow> nstid_error + int list" where
  "read_namespaced_tids tid proc_status out =
     (if proc_status = [] then Inr out
      else
        let nspid = read_proc_status_entry proc_status ''NSpid:'' in
        if nspid = [] then Inr out
        else write_tids 0 (drop 1 (string_splitter_tokens CHR 0x09 nspid))
               (replicate (length out) 0))"

lemma find_idx_skip:
  "\<forall>c \<in> set ws. \<not> P c \<Longrightarrow> P x \<Longrightarrow> find_idx P (ws @ x # rest) = Some (length ws)"
  by (induction ws) auto

lemma find_from_skip:
  assumes "\<forall>c \<in> set ws. \<not> P c" "P x"
  shows "find_from P (pre @ ws @ x # rest) (length pre) = Some (length pre + length ws)"
  using find_idx_skip [OF assms] by (simp add: find_from_def)

text \<open>The namespace levels \<^verbatim>\<open>ReadNamespacedTids\<close> copies: the tab-separated tokens
  of the \<^verbatim>\<open>NSpid:\<close> value after the first (the id in the root namespace).\<close>

definition nspid_levels :: "char list \<Rightarrow> char list list" where
  "nspid_levels proc_status =
     drop 1 (string_splitter_tokens CHR 0x09 (read_proc_status_entry proc_status ''NSpid:''))"

lemma write_tids_ok:
  "\<forall>t \<in> set ts. cstring_to_int32 t \<noteq> None \<Longrightarrow> k + length ts \<le> length out \<Longrightarrow>
   write_tids k ts out = Inr (take k out @ map (\<lambda>t. the (cstring_to_int32 t)) ts @ drop (k + length ts) out)"
proof (induction k ts out rule: write_tids.induct)
  case (1 k out)
  then show ?case by simp
next
  case (2 k t ts out)
  then obtain v where v: "cstring_to_int32 t = Some v" and k: "k < length out" by auto
  with 2 have "write_tids k (t # ts) out = write_tids (Suc k) ts (out[k := v])" by simp
  also have "\<dots> = Inr (take (Suc k) (out[k := v]) @ map (\<lambda>t. the (cstring_to_int32 t)) ts
                        @ drop (Suc k + length ts) (out[k := v]))"
    using 2 v k by simp
  also have "take (Suc k) (out[k := v]) = take k out @ [v]"
    using k by (simp add: take_Suc_conv_app_nth)
  also have "drop (Suc k + length ts) (out[k := v]) = drop (k + length (t # ts)) out"
    by (simp add: drop_update_cancel)
  finally show ?case using v by simp
qed

lemma write_tids_overflow:
  "\<forall>t \<in> set (take (length out - k) ts). cstring_to_int32 t \<noteq> None \<Longrightarrow> k \<le> length out \<Longrightarrow>
   length out < k + length ts \<Longrightarrow> write_tids k ts out = Inl CheckFailed"
proof (induction k ts out rule: write_tids.induct)
  case (1 k out)
  then show ?case by simp
next
  case (2 k t ts out)
  show ?case
  proof (cases "length out \<le> k")
    case True
    then show ?thesis by simp
  next
    case False
    then have eq: "length out - k = Suc (length out - Suc k)" by simp
    have all: "\<forall>t' \<in> set (t # take (length out - Suc k) ts). cstring_to_int32 t' \<noteq> None"
      using "2.prems"(1) unfolding eq by simp
    then obtain v where v: "cstring_to_int32 t = Some v" by auto
    from all have "\<forall>t \<in> set (take (length (out[k := v]) - Suc k) ts). cstring_to_int32 t \<noteq> None"
      by simp
    with "2.IH" [OF _ v] "2.prems"(3) False v show ?thesis by simp
  qed
qed

subsection \<open>Properties of the status-file helpers\<close>

text \<open>
  C9. A value read by ReadProcStatusEntry never contains a line break and never starts
  with a blank: it is the rest of one line, leading blanks skipped.
\<close>

theorem read_proc_status_entry_shape:
  "CHR 0x0A \<notin> set (read_proc_status_entry buf key)
   \<and> (read_proc_status_entry buf key \<noteq> [] \<longrightarrow>
        hd (read_proc_status_entry buf key) \<noteq> CHR 0x20 \<and> hd (read_proc_status_entry buf key) \<noteq> CHR 0x09)"
proof (cases "read_proc_status_entry buf key = []")
  case True
  then show ?thesis by simp
next
  case False
  then obtain b0 b e where b0: "find_sub buf key = Some b0"
    and b: "find_from (\<lambda>c. c \<noteq> CHR 0x20 \<and> c \<noteq> CHR 0x09) buf (b0 + length key) = Some b"
    and e: "find_from (\<lambda>c. c = CHR 0x0A) buf b = Some e" and be: "b < e"
    and r: "read_proc_status_entry buf key = substr buf b (e - b)"
    by (auto simp: read_proc_status_entry_def split: option.splits if_splits)
  note fb = find_from_SomeD [OF b] and fe = find_from_SomeD [OF e]
  have nl: "CHR 0x0A \<notin> set (substr buf b (e - b))"
  proof
    assume "CHR 0x0A \<in> set (substr buf b (e - b))"
    then obtain k where k: "k < length (substr buf b (e - b))" "substr buf b (e - b) ! k = CHR 0x0A"
      by (auto simp: in_set_conv_nth)
    then have "buf ! (b + k) = CHR 0x0A" "b + k < e" by (auto simp: substr_def)
    with fe show False by auto
  qed
  have "hd (substr buf b (e - b)) = buf ! b"
    using be fe by (simp add: substr_def hd_drop_conv_nth)
  with fb nl show ?thesis by (simp add: r)
qed

theorem read_proc_status_entry_shape_witness:
  "read_proc_status_entry (''State:  S'' @ [CHR 0x0A]) ''State:'' \<noteq> []
   \<and> CHR 0x0A \<notin> set (read_proc_status_entry (''State:  S'' @ [CHR 0x0A]) ''State:'')
   \<and> hd (read_proc_status_entry (''State:  S'' @ [CHR 0x0A]) ''State:'') \<noteq> CHR 0x20
   \<and> hd (read_proc_status_entry (''State:  S'' @ [CHR 0x0A]) ''State:'') \<noteq> CHR 0x09"
proof -
  have "read_proc_status_entry (''State:  S'' @ [CHR 0x0A]) ''State:'' = ''S''"
    by code_simp
  with read_proc_status_entry_shape [of "''State:  S'' @ [CHR 0x0A]" "''State:''"] show ?thesis by simp
qed

text \<open>
  C8. ReadProcStatusEntry reads back a status line: when the first occurrence of the key
  is followed by blanks, a value and a newline, it returns the value. The text before
  the key is arbitrary: it need not end a line, so a key that first occurs inside
  another line (a process name containing \<open>Uid:\<close>) is read from there.
\<close>

theorem read_proc_status_entry_line:
  assumes first: "find_sub (pre @ key @ ws @ v @ CHR 0x0A # post) key = Some (length pre)"
    and ws: "\<forall>c \<in> set ws. c = CHR 0x20 \<or> c = CHR 0x09"
    and v: "v \<noteq> []" "hd v \<noteq> CHR 0x20" "hd v \<noteq> CHR 0x09" "CHR 0x0A \<notin> set v"
  shows "read_proc_status_entry (pre @ key @ ws @ v @ CHR 0x0A # post) key = v"
proof -
  let ?buf = "pre @ key @ ws @ v @ CHR 0x0A # post"
  obtain x xs where vx: "v = x # xs" using v(1) by (cases v) auto
  have b: "find_from (\<lambda>c. c \<noteq> CHR 0x20 \<and> c \<noteq> CHR 0x09) ?buf (length pre + length key)
           = Some (length pre + length key + length ws)"
    using find_from_skip [of ws "\<lambda>c. c \<noteq> CHR 0x20 \<and> c \<noteq> CHR 0x09" x "pre @ key" "xs @ CHR 0x0A # post"]
      ws v vx by auto
  have e: "find_from (\<lambda>c. c = CHR 0x0A) ?buf (length pre + length key + length ws)
           = Some (length pre + length key + length ws + length v)"
    using find_from_skip [of v "\<lambda>c. c = CHR 0x0A" "CHR 0x0A" "pre @ key @ ws" post] v(4)
    by (auto simp: add.assoc)
  show ?thesis
    using first b e v(1)
    by (simp add: read_proc_status_entry_def substr_def add.assoc)
qed


theorem read_proc_status_entry_line_witness:
  "read_proc_status_entry
     ((''Name:'' @ [CHR 0x09] @ ''x '') @ ''Uid:'' @ '' '' @ ''0'' @ CHR 0x0A # ''Uid:'' @ [CHR 0x09] @ ''1000'' @ [CHR 0x0A])
     ''Uid:'' = ''0''"
proof -
  have "find_sub ((''Name:'' @ [CHR 0x09] @ ''x '') @ ''Uid:'' @ '' '' @ ''0'' @ CHR 0x0A #
                  ''Uid:'' @ [CHR 0x09] @ ''1000'' @ [CHR 0x0A]) ''Uid:''
        = Some (length (''Name:'' @ [CHR 0x09] @ ''x ''))"
    by code_simp
  from read_proc_status_entry_line [OF this] show ?thesis by simp
qed

definition numeric_dir :: "dirent \<Rightarrow> bool" where
  "numeric_dir e \<longleftrightarrow> d_type e = DT_DIR \<and> cstring_to_int32 (d_name e) \<noteq> None"

text \<open>
  C10. ReadNextNumericDir returns the name of the first directory entry whose name is
  a whole decimal number (or 0 when there is none) and leaves the stream just after it.
\<close>

theorem read_next_numeric_dir_first:
  "read_next_numeric_dir es =
     (case find_idx numeric_dir es of
        None \<Rightarrow> (0, [])
      | Some j \<Rightarrow> (the (cstring_to_int32 (d_name (es ! j))), drop (Suc j) es))"
proof (induction es)
  case (Cons e es)
  show ?case
  proof (cases "numeric_dir e")
    case True
    then show ?thesis by (auto simp: numeric_dir_def)
  next
    case False
    then have "read_next_numeric_dir (e # es) = read_next_numeric_dir es"
      by (auto simp: numeric_dir_def split: option.splits)
    moreover from False have "find_idx numeric_dir (e # es) = map_option Suc (find_idx numeric_dir es)"
      by simp
    ultimately show ?thesis
      using Cons.IH by (cases "find_idx numeric_dir es") auto
  qed
qed simp

text \<open>
  C21. ReadNamespacedTids copies the namespace levels of the \<^verbatim>\<open>NSpid:\<close> line
  into the array, zero-filling the rest, when they fit.
\<close>

theorem read_namespaced_tids_ok:
  assumes "read_proc_status_entry proc_status ''NSpid:'' \<noteq> []"
    and "\<forall>t \<in> set (nspid_levels proc_status). cstring_to_int32 t \<noteq> None"
    and "length (nspid_levels proc_status) \<le> length out"
  shows "read_namespaced_tids tid proc_status out =
           Inr (map (\<lambda>t. the (cstring_to_int32 t)) (nspid_levels proc_status)
                @ replicate (length out - length (nspid_levels proc_status)) 0)"
proof -
  have "proc_status \<noteq> []"
    using assms(1) by (auto simp: read_proc_status_entry_def find_sub_def)
  with assms write_tids_ok [of "nspid_levels proc_status" 0 "replicate (length out) 0"]
  show ?thesis by (simp add: read_namespaced_tids_def nspid_levels_def Let_def)
qed

theorem read_namespaced_tids_ok_witness:
  "read_namespaced_tids 42 (''NSpid:'' @ [CHR 0x09] @ ''42'' @ [CHR 0x09] @ ''7'' @ [CHR 0x0A]) [0, 0, 0, 0]
     = Inr [7, 0, 0, 0]"
proof -
  have l: "nspid_levels (''NSpid:'' @ [CHR 0x09] @ ''42'' @ [CHR 0x09] @ ''7'' @ [CHR 0x0A]) = [''7'']"
    by code_simp
  have "read_proc_status_entry (''NSpid:'' @ [CHR 0x09] @ ''42'' @ [CHR 0x09] @ ''7'' @ [CHR 0x0A]) ''NSpid:'' \<noteq> []"
    by code_simp
  moreover have "cstring_to_int32 ''7'' = Some 7"
    by code_simp
  ultimately show ?thesis
    using read_namespaced_tids_ok [of "''NSpid:'' @ [CHR 0x09] @ ''42'' @ [CHR 0x09] @ ''7'' @ [CHR 0x0A]"
        "[0, 0, 0, 0]" 42] l
    by simp
qed

text \<open>
  C22. A process nested in more PID namespaces than the array has entries makes
  ReadNamespacedTids fail its \<^verbatim>\<open>PERFETTO_CHECK\<close>, which aborts the daemon.
\<close>

theorem read_namespaced_tids_overflow:
  assumes "read_proc_status_entry proc_status ''NSpid:'' \<noteq> []"
    and "\<forall>t \<in> set (take (length out) (nspid_levels proc_status)). cstring_to_int32 t \<noteq> None"
    and "length out < length (nspid_levels proc_status)"
  shows "read_namespaced_tids tid proc_status out = Inl CheckFailed"
proof -
  have "proc_status \<noteq> []"
    using assms(1) by (auto simp: read_proc_status_entry_def find_sub_def)
  with assms write_tids_overflow [of "replicate (length out) 0" 0 "nspid_levels proc_status"]
  show ?thesis by (simp add: read_namespaced_tids_def nspid_levels_def Let_def)
qed

theorem read_namespaced_tids_overflow_witness:
  "read_namespaced_tids 42 (''NSpid:'' @ [CHR 0x09] @ ''42'' @ [CHR 0x09] @ ''7'' @ [CHR 0x09] @ ''1'' @ [CHR 0x0A]) [0]
     = Inl CheckFailed"
proof -
  have l: "nspid_levels (''NSpid:'' @ [CHR 0x09] @ ''42'' @ [CHR 0x09] @ ''7'' @ [CHR 0x09] @ ''1'' @ [CHR 0x0A])
      = [''7'', ''1'']"
    by code_simp
  have "read_proc_status_entry (''NSpid:'' @ [CHR 0x09] @ ''42'' @ [CHR 0x09] @ ''7'' @ [CHR 0x09] @ ''1'' @ [CHR 0x0A]) ''NSpid:'' \<noteq> []"
    by code_simp
  moreover have "cstring_to_int32 ''7'' = Some 7"
    by code_simp
  ultimately show ?thesis
    using read_namespaced_tids_overflow [of "''NSpid:'' @ [CHR 0x09] @ ''42'' @ [CHR 0x09] @ ''7'' @ [CHR 0x09] @ ''1'' @ [CHR 0x0A]"
        "[0]" 42] l
    by simp
qed

end
