(* ===== verification/DataSourceState.thy ===== *)
theory DataSourceState
  imports Prelude
begin

text \<open>
  The state of \<^verbatim>\<open>ProcessStatsDataSource\<close>
  (\<^verbatim>\<open>src/traced/probes/ps/process_stats_data_source.cc\<close>) and its packet builder.
  The data source writes trace packets through a \<^verbatim>\<open>TraceWriter\<close>; a packet holds
  nested \<^verbatim>\<open>ProcessTree\<close> and \<^verbatim>\<open>ProcessStats\<close> messages, and the data source keeps
  pointers to the message it is filling (\<^verbatim>\<open>cur_ps_tree_\<close>, \<^verbatim>\<open>cur_ps_stats_\<close>,
  \<^verbatim>\<open>cur_ps_stats_process_\<close>). In the model a packet is a list of fields in the order
  they were begun, a pointer is a flag, and the message it designates is the last field
  of the open packet (the last process of that field for \<^verbatim>\<open>cur_ps_stats_process_\<close>):
  protozero finalises a nested message when the next one is begun, so only the last can
  be written. \<open>packet_inv\<close> states that the flags designate such messages.
  The boot-time clock is part of the state: each \<^verbatim>\<open>GetBootTimeNs()\<close> reads it and it
  advances. Packets handed back to the writer are appended to \<open>written\<close>.
\<close>

subsection \<open>Emitted messages\<close>

record proc_entry =
  pr_pid :: int
  pr_ppid :: int
  pr_uid :: int
  pr_nspid :: "int list"
  pr_cmdline :: "char list list"

record thread_entry =
  th_tid :: int
  th_tgid :: int
  th_name :: "char list option"
  th_nstid :: "int list"

record process_tree =
  pt_processes :: "proc_entry list"
  pt_threads :: "thread_entry list"
  pt_collection_end :: "u64 option"

datatype stat_field =
  VmSizeKb | VmLockedKb | VmHwmKb | VmRssKb | RssAnonKb | RssFileKb | RssShmemKb | VmSwapKb
  | OomScoreAdj

record fd_entry =
  fd_num :: u64
  fd_path :: "char list"

record stats_process =
  sp_pid :: int
  sp_counters :: "(stat_field \<times> int) list"
  sp_fds :: "fd_entry list"

record process_stats =
  ps_processes :: "stats_process list"
  ps_collection_end :: "u64 option"

datatype packet_field = TreeField process_tree | StatsField process_stats

record trace_packet =
  pkt_timestamp :: u64
  pkt_incremental_state_cleared :: bool
  pkt_fields :: "packet_field list"

subsection \<open>The data source\<close>

record cached_stats =
  vm_size_kb :: u32
  vm_locked_kb :: u32
  vm_hvm_kb :: u32
  vm_rss_kb :: u32
  rss_anon_kb :: u32
  rss_file_kb :: u32
  rss_shmem_kb :: u32
  vm_swap_kb :: u32
  oom_score_adj :: int
  seen_fds :: "u64 set"

definition cached_default :: cached_stats where
  "cached_default =
     \<lparr>vm_size_kb = - 1, vm_locked_kb = - 1, vm_hvm_kb = - 1, vm_rss_kb = - 1,
      rss_anon_kb = - 1, rss_file_kb = - 1, rss_shmem_kb = - 1,
      vm_swap_kb = - 1, oom_score_adj = 2 ^ 31 - 1, seen_fds = {}\<rparr>"

record ds_state =
  record_thread_names :: bool
  dump_all_procs_on_start :: bool
  resolve_process_fds :: bool
  enable_on_demand_dumps :: bool
  poll_period_ms :: u32
  process_stats_cache_ttl_ticks :: u32
  seen_pids :: "int set"
  tids_to_pids :: "int \<rightharpoonup> int"
  skip_stats_for_pids :: "bool list"
  process_stats_cache :: "int \<rightharpoonup> cached_stats"
  cache_ticks :: u32
  cur_packet :: "trace_packet option"
  cur_ps_tree :: bool
  cur_ps_stats :: bool
  cur_ps_stats_process :: bool
  cur_procfs_scan_start_timestamp :: u64
  did_clear_incremental_state :: bool
  written :: "trace_packet list"
  boot_clock :: u64

subsection \<open>Editing the open packet\<close>

definition update_last :: "('a \<Rightarrow> 'a) \<Rightarrow> 'a list \<Rightarrow> 'a list" where
  "update_last f xs = (if xs = [] then [] else butlast xs @ [f (last xs)])"

definition edit_packet :: "(packet_field list \<Rightarrow> packet_field list) \<Rightarrow> ds_state \<Rightarrow> ds_state" where
  "edit_packet f s =
     s\<lparr>cur_packet := map_option (\<lambda>p. p\<lparr>pkt_fields := f (pkt_fields p)\<rparr>) (cur_packet s)\<rparr>"

fun on_tree :: "(process_tree \<Rightarrow> process_tree) \<Rightarrow> packet_field \<Rightarrow> packet_field" where
  "on_tree f (TreeField t) = TreeField (f t)"
| "on_tree f fld = fld"

fun on_stats :: "(process_stats \<Rightarrow> process_stats) \<Rightarrow> packet_field \<Rightarrow> packet_field" where
  "on_stats f (StatsField t) = StatsField (f t)"
| "on_stats f fld = fld"

definition edit_tree :: "(process_tree \<Rightarrow> process_tree) \<Rightarrow> ds_state \<Rightarrow> ds_state" where
  "edit_tree f = edit_packet (update_last (on_tree f))"

definition edit_stats :: "(process_stats \<Rightarrow> process_stats) \<Rightarrow> ds_state \<Rightarrow> ds_state" where
  "edit_stats f = edit_packet (update_last (on_stats f))"

definition edit_stats_process :: "(stats_process \<Rightarrow> stats_process) \<Rightarrow> ds_state \<Rightarrow> ds_state" where
  "edit_stats_process f = edit_stats (\<lambda>st. st\<lparr>ps_processes := update_last f (ps_processes st)\<rparr>)"

definition empty_tree :: process_tree where
  "empty_tree = \<lparr>pt_processes = [], pt_threads = [], pt_collection_end = None\<rparr>"

definition empty_stats :: process_stats where
  "empty_stats = \<lparr>ps_processes = [], ps_collection_end = None\<rparr>"

subsection \<open>The builder operations\<close>

definition get_boot_time_ns :: "ds_state \<Rightarrow> u64 \<times> ds_state" where
  "get_boot_time_ns s = (boot_clock s, s\<lparr>boot_clock := boot_clock s + 1\<rparr>)"

definition cache_procfs_scan_start_timestamp :: "ds_state \<Rightarrow> u64 \<times> ds_state" where
  "cache_procfs_scan_start_timestamp s =
     (if cur_procfs_scan_start_timestamp s = 0 then
        (let (now, s1) = get_boot_time_ns s
         in (now, s1\<lparr>cur_procfs_scan_start_timestamp := now\<rparr>))
      else (cur_procfs_scan_start_timestamp s, s))"

definition start_new_packet_if_needed :: "ds_state \<Rightarrow> ds_state" where
  "start_new_packet_if_needed s =
     (if cur_packet s \<noteq> None then s
      else
        let (ts, s1) = cache_procfs_scan_start_timestamp s
        in s1\<lparr>cur_packet := Some \<lparr>pkt_timestamp = ts,
                                   pkt_incremental_state_cleared = did_clear_incremental_state s1,
                                   pkt_fields = []\<rparr>,
              did_clear_incremental_state := False\<rparr>)"

definition get_or_create_ps_tree :: "ds_state \<Rightarrow> ds_state" where
  "get_or_create_ps_tree s =
     (let s1 = start_new_packet_if_needed s;
          s2 = (if cur_ps_tree s1 then s1
                else (edit_packet (\<lambda>fs. fs @ [TreeField empty_tree]) s1)\<lparr>cur_ps_tree := True\<rparr>)
      in s2\<lparr>cur_ps_stats := False, cur_ps_stats_process := False\<rparr>)"

definition get_or_create_stats :: "ds_state \<Rightarrow> ds_state" where
  "get_or_create_stats s =
     (let s1 = start_new_packet_if_needed s;
          s2 = (if cur_ps_stats s1 then s1
                else (edit_packet (\<lambda>fs. fs @ [StatsField empty_stats]) s1)\<lparr>cur_ps_stats := True\<rparr>)
      in s2\<lparr>cur_ps_tree := False, cur_ps_stats_process := False\<rparr>)"

definition get_or_create_stats_process :: "int \<Rightarrow> ds_state \<Rightarrow> ds_state" where
  "get_or_create_stats_process pid s =
     (if cur_ps_stats_process s then s
      else
        let s1 = get_or_create_stats s
        in (edit_stats (\<lambda>st. st\<lparr>ps_processes := ps_processes st @
                                [\<lparr>sp_pid = pid, sp_counters = [], sp_fds = []\<rparr>]\<rparr>) s1)
             \<lparr>cur_ps_stats_process := True\<rparr>)"

definition commit_packet :: "ds_state \<Rightarrow> ds_state" where
  "commit_packet s =
     s\<lparr>cur_packet := None,
       written := written s @ (case cur_packet s of None \<Rightarrow> [] | Some p \<Rightarrow> [p])\<rparr>"

definition finalize_cur_packet :: "ds_state \<Rightarrow> ds_state" where
  "finalize_cur_packet s =
     (let (now, s1) = get_boot_time_ns s;
          s2 = (if cur_ps_tree s1
                then (edit_tree (\<lambda>t. t\<lparr>pt_collection_end := Some now\<rparr>) s1)\<lparr>cur_ps_tree := False\<rparr>
                else s1);
          s3 = (if cur_ps_stats s2
                then (edit_stats (\<lambda>t. t\<lparr>ps_collection_end := Some now\<rparr>) s2)\<lparr>cur_ps_stats := False\<rparr>
                else s2)
      in commit_packet (s3\<lparr>cur_ps_stats_process := False, cur_procfs_scan_start_timestamp := 0\<rparr>))"

definition clear_incremental_state :: "ds_state \<Rightarrow> ds_state" where
  "clear_incremental_state s =
     s\<lparr>seen_pids := {}, tids_to_pids := Map.empty, skip_stats_for_pids := [],
       cache_ticks := 0, process_stats_cache := Map.empty, did_clear_incremental_state := True\<rparr>"

subsection \<open>Construction and the poll timer\<close>

datatype quirk = QUIRKS_UNSPECIFIED | DISABLE_INITIAL_DUMP | DISABLE_ON_DEMAND

record process_stats_config =
  cfg_record_thread_names :: bool
  cfg_scan_all_processes_on_start :: bool
  cfg_resolve_process_fds :: bool
  cfg_quirks :: "quirk list"
  cfg_proc_stats_poll_ms :: u32
  cfg_proc_stats_cache_ttl_ms :: u32

definition new_data_source :: "process_stats_config \<Rightarrow> u64 \<Rightarrow> ds_state" where
  "new_data_source cfg clk =
     (let poll0 = cfg_proc_stats_poll_ms cfg;
          poll = (if 0 < poll0 \<and> poll0 < 100 then 100 else poll0);
          ttl = (if 0 < poll then max (cfg_proc_stats_cache_ttl_ms cfg div poll) 1 else 0)
      in \<lparr>record_thread_names = cfg_record_thread_names cfg,
          dump_all_procs_on_start = cfg_scan_all_processes_on_start cfg,
          resolve_process_fds = cfg_resolve_process_fds cfg,
          enable_on_demand_dumps = (DISABLE_ON_DEMAND \<notin> set (cfg_quirks cfg)),
          poll_period_ms = poll, process_stats_cache_ttl_ticks = ttl,
          seen_pids = {}, tids_to_pids = Map.empty, skip_stats_for_pids = [],
          process_stats_cache = Map.empty, cache_ticks = 0,
          cur_packet = None, cur_ps_tree = False, cur_ps_stats = False,
          cur_ps_stats_process = False, cur_procfs_scan_start_timestamp = 0,
          did_clear_incremental_state = False, written = [], boot_clock = clk\<rparr>)"

definition c_rem :: "int \<Rightarrow> int \<Rightarrow> int" where
  "c_rem a b = sgn a * (\<bar>a\<bar> mod \<bar>b\<bar>)"

definition tick_delay :: "u32 \<Rightarrow> int \<Rightarrow> u32" where
  "tick_delay period_ms now_ms = period_ms - word_of_int (c_rem now_ms (uint period_ms))"

definition tick_cache :: "ds_state \<Rightarrow> ds_state" where
  "tick_cache s =
     (let n = cache_ticks s + 1 in
      if n = process_stats_cache_ttl_ticks s
      then s\<lparr>cache_ticks := 0, process_stats_cache := Map.empty\<rparr>
      else s\<lparr>cache_ticks := n\<rparr>)"

subsection \<open>The packet invariant\<close>

fun is_tree_field :: "packet_field \<Rightarrow> bool" where
  "is_tree_field (TreeField _) = True"
| "is_tree_field _ = False"

fun has_stats_process :: "packet_field \<Rightarrow> bool" where
  "has_stats_process (StatsField st) = (ps_processes st \<noteq> [])"
| "has_stats_process _ = False"

fun is_stats_field :: "packet_field \<Rightarrow> bool" where
  "is_stats_field (StatsField _) = True"
| "is_stats_field _ = False"

definition last_is :: "(packet_field \<Rightarrow> bool) \<Rightarrow> ds_state \<Rightarrow> bool" where
  "last_is P s =
     (case cur_packet s of None \<Rightarrow> False | Some p \<Rightarrow> pkt_fields p \<noteq> [] \<and> P (last (pkt_fields p)))"

definition packet_inv :: "ds_state \<Rightarrow> bool" where
  "packet_inv s \<longleftrightarrow>
     (cur_ps_tree s \<longrightarrow> last_is is_tree_field s)
     \<and> (cur_ps_stats s \<longrightarrow> last_is is_stats_field s)
     \<and> \<not> (cur_ps_tree s \<and> cur_ps_stats s)
     \<and> (cur_ps_stats_process s \<longrightarrow> cur_ps_stats s \<and> last_is has_stats_process s)"

lemma update_last_snoc [simp]: "update_last f (xs @ [x]) = xs @ [f x]"
  by (simp add: update_last_def)

lemma update_last_nonempty [simp]: "update_last f xs \<noteq> [] \<longleftrightarrow> xs \<noteq> []"
  by (simp add: update_last_def)

lemma last_update_last [simp]: "xs \<noteq> [] \<Longrightarrow> last (update_last f xs) = f (last xs)"
  by (simp add: update_last_def)

lemma cache_ts_fields [simp]:
  "cur_packet (snd (cache_procfs_scan_start_timestamp s)) = cur_packet s"
  "cur_ps_tree (snd (cache_procfs_scan_start_timestamp s)) = cur_ps_tree s"
  "cur_ps_stats (snd (cache_procfs_scan_start_timestamp s)) = cur_ps_stats s"
  "cur_ps_stats_process (snd (cache_procfs_scan_start_timestamp s)) = cur_ps_stats_process s"
  "did_clear_incremental_state (snd (cache_procfs_scan_start_timestamp s)) = did_clear_incremental_state s"
  "written (snd (cache_procfs_scan_start_timestamp s)) = written s"
  by (simp_all add: cache_procfs_scan_start_timestamp_def get_boot_time_ns_def)

lemma start_new_packet_flags [simp]:
  "cur_ps_tree (start_new_packet_if_needed s) = cur_ps_tree s"
  "cur_ps_stats (start_new_packet_if_needed s) = cur_ps_stats s"
  "cur_ps_stats_process (start_new_packet_if_needed s) = cur_ps_stats_process s"
  "written (start_new_packet_if_needed s) = written s"
  by (simp_all add: start_new_packet_if_needed_def case_prod_beta)

lemma start_new_packet_open: "cur_packet (start_new_packet_if_needed s) \<noteq> None"
  by (simp add: start_new_packet_if_needed_def case_prod_beta)

lemma start_new_packet_keeps:
  "cur_packet s \<noteq> None \<Longrightarrow> start_new_packet_if_needed s = s"
  by (simp add: start_new_packet_if_needed_def)

lemma packet_inv_closed: "packet_inv s \<Longrightarrow> cur_packet s = None \<Longrightarrow>
    \<not> cur_ps_tree s \<and> \<not> cur_ps_stats s \<and> \<not> cur_ps_stats_process s"
  by (auto simp: packet_inv_def last_is_def)

lemma start_new_packet_inv: "packet_inv s \<Longrightarrow> packet_inv (start_new_packet_if_needed s)"
proof (cases "cur_packet s")
  case None
  assume "packet_inv s"
  then have "\<not> cur_ps_tree s \<and> \<not> cur_ps_stats s \<and> \<not> cur_ps_stats_process s"
    using None by (rule packet_inv_closed)
  then show ?thesis by (simp add: packet_inv_def)
qed (simp add: start_new_packet_keeps)

lemma last_is_start_new:
  "last_is P s \<Longrightarrow> last_is P (start_new_packet_if_needed s)"
  by (auto simp: last_is_def start_new_packet_keeps split: option.splits)

lemma get_or_create_ps_tree_inv:
  "packet_inv s \<Longrightarrow> packet_inv (get_or_create_ps_tree s) \<and> cur_ps_tree (get_or_create_ps_tree s)"
proof -
  assume inv: "packet_inv s"
  let ?s1 = "start_new_packet_if_needed s"
  have inv1: "packet_inv ?s1" using inv by (rule start_new_packet_inv)
  obtain p where p: "cur_packet ?s1 = Some p" using start_new_packet_open by blast
  show ?thesis
  proof (cases "cur_ps_tree ?s1")
    case True
    with inv1 show ?thesis
      by (auto simp: get_or_create_ps_tree_def packet_inv_def last_is_def)
  next
    case False
    with p show ?thesis
      by (auto simp: get_or_create_ps_tree_def packet_inv_def last_is_def edit_packet_def)
  qed
qed

lemma get_or_create_stats_inv:
  "packet_inv s \<Longrightarrow> packet_inv (get_or_create_stats s) \<and> cur_ps_stats (get_or_create_stats s)"
proof -
  assume inv: "packet_inv s"
  let ?s1 = "start_new_packet_if_needed s"
  have inv1: "packet_inv ?s1" using inv by (rule start_new_packet_inv)
  obtain p where p: "cur_packet ?s1 = Some p" using start_new_packet_open by blast
  show ?thesis
  proof (cases "cur_ps_stats ?s1")
    case True
    with inv1 show ?thesis
      by (auto simp: get_or_create_stats_def packet_inv_def last_is_def)
  next
    case False
    with p show ?thesis
      by (auto simp: get_or_create_stats_def packet_inv_def last_is_def edit_packet_def)
  qed
qed


definition kind_preserving :: "(packet_field \<Rightarrow> packet_field) \<Rightarrow> bool" where
  "kind_preserving g \<longleftrightarrow>
     (\<forall>x. is_tree_field (g x) = is_tree_field x \<and> is_stats_field (g x) = is_stats_field x
          \<and> (has_stats_process x \<longrightarrow> has_stats_process (g x)))"

lemma edit_packet_update_last_inv:
  assumes "packet_inv s" "kind_preserving g"
  shows "packet_inv (edit_packet (update_last g) s)"
proof -
  have "last_is P (edit_packet (update_last g) s)"
    if "last_is P s" "\<And>x. P x \<Longrightarrow> P (g x)" for P
    using that by (auto simp: last_is_def edit_packet_def split: option.splits)
  moreover have "\<And>x. is_tree_field x \<Longrightarrow> is_tree_field (g x)"
    "\<And>x. is_stats_field x \<Longrightarrow> is_stats_field (g x)"
    "\<And>x. has_stats_process x \<Longrightarrow> has_stats_process (g x)"
    using assms(2) by (auto simp: kind_preserving_def)
  ultimately show ?thesis
    using assms(1) by (simp add: packet_inv_def edit_packet_def)
qed

lemma on_tree_kind: "kind_preserving (on_tree f)"
proof -
  have "is_tree_field (on_tree f x) = is_tree_field x \<and> is_stats_field (on_tree f x) = is_stats_field x
        \<and> (has_stats_process x \<longrightarrow> has_stats_process (on_tree f x))" for x
    by (cases x) auto
  then show ?thesis by (simp add: kind_preserving_def)
qed

lemma on_stats_kind:
  assumes "\<And>st. ps_processes st \<noteq> [] \<Longrightarrow> ps_processes (f st) \<noteq> []"
  shows "kind_preserving (on_stats f)"
proof -
  have "is_tree_field (on_stats f x) = is_tree_field x \<and> is_stats_field (on_stats f x) = is_stats_field x
        \<and> (has_stats_process x \<longrightarrow> has_stats_process (on_stats f x))" for x
    using assms by (cases x) auto
  then show ?thesis by (simp add: kind_preserving_def)
qed

lemma edit_tree_inv: "packet_inv s \<Longrightarrow> packet_inv (edit_tree f s)"
  unfolding edit_tree_def by (rule edit_packet_update_last_inv [OF _ on_tree_kind])

lemma edit_stats_inv:
  "packet_inv s \<Longrightarrow> (\<And>st. ps_processes st \<noteq> [] \<Longrightarrow> ps_processes (f st) \<noteq> []) \<Longrightarrow>
   packet_inv (edit_stats f s)"
  unfolding edit_stats_def by (rule edit_packet_update_last_inv [OF _ on_stats_kind])

lemma edit_stats_process_inv: "packet_inv s \<Longrightarrow> packet_inv (edit_stats_process f s)"
  unfolding edit_stats_process_def by (rule edit_stats_inv) simp_all

lemma edit_flags [simp]:
  "cur_ps_tree (edit_packet g s) = cur_ps_tree s"
  "cur_ps_stats (edit_packet g s) = cur_ps_stats s"
  "cur_ps_stats_process (edit_packet g s) = cur_ps_stats_process s"
  "written (edit_packet g s) = written s"
  "did_clear_incremental_state (edit_packet g s) = did_clear_incremental_state s"
  by (simp_all add: edit_packet_def)

lemma last_is_flag_update [simp]:
  "last_is P (s\<lparr>cur_ps_stats_process := b\<rparr>) = last_is P s"
  "last_is P (s\<lparr>cur_ps_tree := b\<rparr>) = last_is P s"
  "last_is P (s\<lparr>cur_ps_stats := b\<rparr>) = last_is P s"
  by (simp_all add: last_is_def)

lemma get_or_create_stats_process_inv:
  "packet_inv s \<Longrightarrow> packet_inv (get_or_create_stats_process pid s) \<and> cur_ps_stats_process (get_or_create_stats_process pid s)"
proof (cases "cur_ps_stats_process s")
  case False
  assume inv: "packet_inv s"
  let ?s1 = "get_or_create_stats s"
  let ?f = "\<lambda>st. st\<lparr>ps_processes := ps_processes st @ [\<lparr>sp_pid = pid, sp_counters = [], sp_fds = []\<rparr>]\<rparr>"
  let ?s2 = "edit_stats ?f ?s1"
  have s1: "packet_inv ?s1" "cur_ps_stats ?s1" "\<not> cur_ps_tree ?s1"
    using get_or_create_stats_inv [OF inv] by (auto simp: packet_inv_def)
  have inv2: "packet_inv ?s2" by (rule edit_stats_inv [OF s1(1)]) simp
  have flags2: "cur_ps_stats ?s2" "\<not> cur_ps_tree ?s2"
    using s1 by (simp_all add: edit_stats_def)
  have "last_is has_stats_process ?s2"
    using s1 by (auto simp: packet_inv_def last_is_def edit_stats_def edit_packet_def split: option.splits
        elim: is_stats_field.elims)
  with inv2 flags2 have "packet_inv (?s2\<lparr>cur_ps_stats_process := True\<rparr>)"
    by (simp add: packet_inv_def)
  with False show ?thesis
    by (simp add: get_or_create_stats_process_def)
qed (simp add: get_or_create_stats_process_def)

lemma finalize_closed:
  "\<not> cur_ps_tree (finalize_cur_packet s) \<and> \<not> cur_ps_stats (finalize_cur_packet s)
   \<and> \<not> cur_ps_stats_process (finalize_cur_packet s) \<and> cur_packet (finalize_cur_packet s) = None
   \<and> cur_procfs_scan_start_timestamp (finalize_cur_packet s) = 0"
  by (simp add: finalize_cur_packet_def Let_def case_prod_beta edit_tree_def edit_stats_def
      commit_packet_def)

lemma finalize_did_clear [simp]:
  "did_clear_incremental_state (finalize_cur_packet s) = did_clear_incremental_state s"
  by (simp add: finalize_cur_packet_def commit_packet_def Let_def case_prod_beta get_boot_time_ns_def
                edit_tree_def edit_stats_def edit_packet_def)

lemma start_new_closed:
  "cur_packet s = None \<Longrightarrow>
     map_option pkt_incremental_state_cleared (cur_packet (start_new_packet_if_needed s))
       = Some (did_clear_incremental_state s)
   \<and> \<not> did_clear_incremental_state (start_new_packet_if_needed s)"
  by (simp add: start_new_packet_if_needed_def case_prod_beta)

lemma finalize_inv: "packet_inv (finalize_cur_packet s)"
  using finalize_closed [of s] by (simp add: packet_inv_def)

lemma clear_incremental_state_inv: "packet_inv s \<Longrightarrow> packet_inv (clear_incremental_state s)"
  by (simp add: packet_inv_def last_is_def clear_incremental_state_def)


definition add_tree_process :: "proc_entry \<Rightarrow> ds_state \<Rightarrow> ds_state" where
  "add_tree_process p s =
     edit_tree (\<lambda>t. t\<lparr>pt_processes := pt_processes t @ [p]\<rparr>) (get_or_create_ps_tree s)"

definition add_tree_thread :: "thread_entry \<Rightarrow> ds_state \<Rightarrow> ds_state" where
  "add_tree_thread th s =
     edit_tree (\<lambda>t. t\<lparr>pt_threads := pt_threads t @ [th]\<rparr>) (get_or_create_ps_tree s)"

definition set_stats_counter :: "int \<Rightarrow> stat_field \<Rightarrow> int \<Rightarrow> ds_state \<Rightarrow> ds_state" where
  "set_stats_counter pid f v s =
     edit_stats_process (\<lambda>p. p\<lparr>sp_counters := sp_counters p @ [(f, v)]\<rparr>)
       (get_or_create_stats_process pid s)"

definition add_stats_fd :: "int \<Rightarrow> fd_entry \<Rightarrow> ds_state \<Rightarrow> ds_state" where
  "add_stats_fd pid fd s =
     edit_stats_process (\<lambda>p. p\<lparr>sp_fds := sp_fds p @ [fd]\<rparr>) (get_or_create_stats_process pid s)"

datatype builder_op =
    BStartPacket | BPsTree | BStats | BStatsProcess int | BFinalize | BClearIncremental
  | BAddProcess proc_entry | BAddThread thread_entry | BSetCounter int stat_field int
  | BAddFd int fd_entry | BResetStatsProcess

fun builder_step :: "ds_state \<Rightarrow> builder_op \<Rightarrow> ds_state" where
  "builder_step s BStartPacket = start_new_packet_if_needed s"
| "builder_step s BPsTree = get_or_create_ps_tree s"
| "builder_step s BStats = get_or_create_stats s"
| "builder_step s (BStatsProcess pid) = get_or_create_stats_process pid s"
| "builder_step s BFinalize = finalize_cur_packet s"
| "builder_step s BClearIncremental = clear_incremental_state s"
| "builder_step s (BAddProcess p) = add_tree_process p s"
| "builder_step s (BAddThread th) = add_tree_thread th s"
| "builder_step s (BSetCounter pid f v) = set_stats_counter pid f v s"
| "builder_step s (BAddFd pid fd) = add_stats_fd pid fd s"
| "builder_step s BResetStatsProcess = s\<lparr>cur_ps_stats_process := False\<rparr>"

definition builder_run :: "ds_state \<Rightarrow> builder_op list \<Rightarrow> ds_state" where
  "builder_run s ops = fold (\<lambda>op s. builder_step s op) ops s"

lemma builder_step_inv: "packet_inv s \<Longrightarrow> packet_inv (builder_step s op)"
proof (cases op)
  case BStartPacket
  assume "packet_inv s" with BStartPacket show ?thesis by (simp add: start_new_packet_inv)
next
  case BPsTree
  assume "packet_inv s" with BPsTree show ?thesis by (simp add: get_or_create_ps_tree_inv)
next
  case BStats
  assume "packet_inv s" with BStats show ?thesis by (simp add: get_or_create_stats_inv)
next
  case (BStatsProcess pid)
  assume "packet_inv s" with BStatsProcess show ?thesis by (simp add: get_or_create_stats_process_inv)
next
  case BFinalize
  then show ?thesis by (simp add: finalize_inv)
next
  case BClearIncremental
  assume "packet_inv s" with BClearIncremental show ?thesis by (simp add: clear_incremental_state_inv)
next
  case (BAddProcess p)
  assume "packet_inv s" with BAddProcess show ?thesis
    by (simp add: add_tree_process_def edit_tree_inv get_or_create_ps_tree_inv)
next
  case (BAddThread th)
  assume "packet_inv s" with BAddThread show ?thesis
    by (simp add: add_tree_thread_def edit_tree_inv get_or_create_ps_tree_inv)
next
  case (BSetCounter pid f v)
  assume "packet_inv s" with BSetCounter show ?thesis
    by (simp add: set_stats_counter_def edit_stats_process_inv get_or_create_stats_process_inv)
next
  case (BAddFd pid fd)
  assume "packet_inv s" with BAddFd show ?thesis
    by (simp add: add_stats_fd_def edit_stats_process_inv get_or_create_stats_process_inv)
next
  case BResetStatsProcess
  assume "packet_inv s" with BResetStatsProcess show ?thesis by (simp add: packet_inv_def)
qed

lemma builder_run_inv: "packet_inv s \<Longrightarrow> packet_inv (builder_run s ops)"
  unfolding builder_run_def by (induction ops arbitrary: s) (simp_all add: builder_step_inv)

definition marks :: "ds_state \<Rightarrow> nat" where
  "marks s =
     length (filter pkt_incremental_state_cleared (written s))
     + (case cur_packet s of None \<Rightarrow> 0 | Some p \<Rightarrow> if pkt_incremental_state_cleared p then 1 else 0)
     + (if did_clear_incremental_state s then 1 else 0)"

lemma marks_edit [simp]: "marks (edit_packet g s) = marks s"
  by (cases "cur_packet s") (simp_all add: marks_def edit_packet_def)

lemma marks_edit_tree [simp]: "marks (edit_tree f s) = marks s"
  by (simp add: edit_tree_def)

lemma marks_edit_stats [simp]: "marks (edit_stats g s) = marks s"
  by (simp add: edit_stats_def)

lemma marks_edit_stats_process [simp]: "marks (edit_stats_process h s) = marks s"
  by (simp add: edit_stats_process_def)

lemma marks_flags [simp]:
  "marks (s\<lparr>cur_ps_tree := b\<rparr>) = marks s" "marks (s\<lparr>cur_ps_stats := b\<rparr>) = marks s"
  "marks (s\<lparr>cur_ps_stats_process := b\<rparr>) = marks s"
  by (simp_all add: marks_def)

lemma marks_start_new [simp]: "marks (start_new_packet_if_needed s) = marks s"
  by (auto simp: marks_def start_new_packet_if_needed_def case_prod_beta)

lemma marks_get_or_create [simp]:
  "marks (get_or_create_ps_tree s) = marks s" "marks (get_or_create_stats s) = marks s"
  "marks (get_or_create_stats_process pid s) = marks s"
  by (simp_all add: get_or_create_ps_tree_def get_or_create_stats_def get_or_create_stats_process_def Let_def)

lemma marks_commit [simp]: "marks (commit_packet s) = marks s"
  by (cases "cur_packet s") (simp_all add: marks_def commit_packet_def)

lemma marks_clock [simp]: "marks (snd (get_boot_time_ns s)) = marks s"
  by (simp add: marks_def get_boot_time_ns_def)

lemma marks_scan_ts [simp]: "marks (s\<lparr>cur_procfs_scan_start_timestamp := t\<rparr>) = marks s"
  by (simp add: marks_def)

lemma marks_finalize [simp]: "marks (finalize_cur_packet s) = marks s"
  by (simp add: finalize_cur_packet_def Let_def case_prod_beta)

lemma builder_step_marks: "op \<noteq> BClearIncremental \<Longrightarrow> marks (builder_step s op) = marks s"
  by (cases op) (simp_all add: add_tree_process_def add_tree_thread_def set_stats_counter_def add_stats_fd_def)

subsection \<open>Bounds of the constructor and of Tick\<close>

lemma new_data_source_poll:
  "poll_period_ms (new_data_source cfg clk) = 0 \<or> 100 \<le> poll_period_ms (new_data_source cfg clk)"
  by (auto simp: new_data_source_def Let_def not_less word_le_nat_alt word_less_nat_alt unat_eq_zero)

lemma new_data_source_ttl:
  "poll_period_ms (new_data_source cfg clk) \<noteq> 0 \<Longrightarrow>
     1 \<le> process_stats_cache_ttl_ticks (new_data_source cfg clk)
   \<and> unat (process_stats_cache_ttl_ticks (new_data_source cfg clk))
       = max 1 (unat (cfg_proc_stats_cache_ttl_ms cfg) div unat (poll_period_ms (new_data_source cfg clk)))"
  by (auto simp: new_data_source_def Let_def unat_div word_le_nat_alt max_def word_gt_0)

lemma new_data_source_poll_cfg:
  "poll_period_ms (new_data_source cfg clk) =
     (if cfg_proc_stats_poll_ms cfg = 0 then 0 else max 100 (cfg_proc_stats_poll_ms cfg))"
  by (auto simp: new_data_source_def Let_def max_def not_less word_le_nat_alt word_less_nat_alt unat_eq_zero)

lemma ttl_period_bounds:
  fixes ttl_ms poll :: nat
  assumes "0 < poll"
  shows "max 1 (ttl_ms div poll) * poll \<le> max ttl_ms poll \<and> ttl_ms < (max 1 (ttl_ms div poll) + 1) * poll"
proof (cases "ttl_ms < poll")
  case True
  then show ?thesis using assms by (simp add: max_def)
next
  case False
  then have "0 < ttl_ms div poll" using assms by (simp add: div_greater_zero_iff)
  then have d: "1 \<le> ttl_ms div poll" by simp
  have "ttl_ms div poll * poll \<le> ttl_ms" by (simp add: times_div_less_eq_dividend)
  moreover have "ttl_ms < (ttl_ms div poll + 1) * poll"
  proof -
    have e: "ttl_ms div poll * poll + ttl_ms mod poll = ttl_ms" by (rule div_mult_mod_eq)
    have m: "ttl_ms mod poll < poll" using assms by simp
    show ?thesis unfolding distrib_right mult_1_left using e m by linarith
  qed
  moreover have "max 1 (ttl_ms div poll) = ttl_ms div poll" "max ttl_ms poll = ttl_ms"
    using d False by auto
  ultimately show ?thesis by simp
qed

lemma tick_delay_bounds:
  assumes "0 < period_ms" "0 \<le> now_ms"
  shows "0 < unat (tick_delay period_ms now_ms) \<and> unat (tick_delay period_ms now_ms) \<le> unat period_ms"
proof -
  let ?p = "uint period_ms"
  have p: "0 < ?p" using assms(1) by (simp add: word_less_def)
  have r: "c_rem now_ms ?p = now_ms mod ?p"
    using assms(2) p by (cases "now_ms = 0") (simp_all add: c_rem_def)
  have r0: "0 \<le> now_ms mod ?p" "now_ms mod ?p < ?p" using p by simp_all
  then have ur: "uint (word_of_int (now_ms mod ?p) :: u32) = now_ms mod ?p"
    using uint_bounded [of period_ms] by (simp add: uint_word_of_int)
  have le: "(word_of_int (now_ms mod ?p) :: u32) < period_ms"
    using r0 ur by (simp add: word_less_def)
  then have "unat (period_ms - word_of_int (now_ms mod ?p)) = unat period_ms - unat (word_of_int (now_ms mod ?p) :: u32)"
    by (simp add: unat_sub order.strict_implies_order)
  moreover have "unat (word_of_int (now_ms mod ?p) :: u32) < unat period_ms"
    using le by (simp add: word_less_nat_alt)
  ultimately show ?thesis by (simp add: tick_delay_def r)
qed

lemma tick_cache_bound:
  assumes "1 \<le> process_stats_cache_ttl_ticks s" "cache_ticks s < process_stats_cache_ttl_ticks s"
  shows "cache_ticks (tick_cache s) < process_stats_cache_ttl_ticks (tick_cache s)"
proof -
  have "cache_ticks s + 1 \<le> process_stats_cache_ttl_ticks s"
    using assms(2) by (simp add: inc_le)
  then show ?thesis
    using assms by (auto simp: tick_cache_def Let_def order_le_neq_trans word_gt_0)
qed


lemma tick_cache_ttl [simp]:
  "process_stats_cache_ttl_ticks (tick_cache s) = process_stats_cache_ttl_ticks s"
  by (simp add: tick_cache_def Let_def)

lemma unat_succ_below: "(a :: u32) < b \<Longrightarrow> unat (a + 1) = Suc (unat a)"
proof -
  assume "a < b"
  then have "unat a < unat b" by (simp add: word_less_nat_alt)
  moreover have "unat b < 2 ^ 32" using unsigned_less [of b] by simp
  ultimately have "unat a + 1 < 2 ^ 32" by simp
  then show ?thesis by (simp add: unat_word_ariths)
qed

lemma tick_cache_clears:
  assumes "cache_ticks s < process_stats_cache_ttl_ticks s"
  shows "process_stats_cache ((tick_cache ^^ (unat (process_stats_cache_ttl_ticks s) - unat (cache_ticks s))) s)
           = Map.empty
         \<and> cache_ticks ((tick_cache ^^ (unat (process_stats_cache_ttl_ticks s) - unat (cache_ticks s))) s) = 0"
proof -
  have main: "\<And>s n. unat (process_stats_cache_ttl_ticks s) - unat (cache_ticks s) = Suc n \<Longrightarrow>
      cache_ticks s < process_stats_cache_ttl_ticks s \<Longrightarrow>
      process_stats_cache ((tick_cache ^^ Suc n) s) = Map.empty \<and> cache_ticks ((tick_cache ^^ Suc n) s) = 0"
  proof -
    fix s n
    show "unat (process_stats_cache_ttl_ticks s) - unat (cache_ticks s) = Suc n \<Longrightarrow>
      cache_ticks s < process_stats_cache_ttl_ticks s \<Longrightarrow>
      process_stats_cache ((tick_cache ^^ Suc n) s) = Map.empty \<and> cache_ticks ((tick_cache ^^ Suc n) s) = 0"
  proof (induction n arbitrary: s)
    case 0
    have "unat (cache_ticks s + 1) = unat (process_stats_cache_ttl_ticks s)"
      using 0 unat_succ_below [OF "0.prems"(2)] by simp
    then have "cache_ticks s + 1 = process_stats_cache_ttl_ticks s"
      by (simp add: word_unat_eq_iff)
    then show ?case by (simp add: tick_cache_def)
  next
    case (Suc n)
    have u: "unat (cache_ticks s + 1) = Suc (unat (cache_ticks s))"
      by (rule unat_succ_below [OF Suc.prems(2)])
    then have "unat (cache_ticks s + 1) \<noteq> unat (process_stats_cache_ttl_ticks s)"
      using Suc.prems(1) by simp
    then have ne: "cache_ticks s + 1 \<noteq> process_stats_cache_ttl_ticks s"
      by auto
    let ?s' = "tick_cache s"
    have s': "?s' = s\<lparr>cache_ticks := cache_ticks s + 1\<rparr>"
      using ne by (simp add: tick_cache_def)
    have "unat (process_stats_cache_ttl_ticks ?s') - unat (cache_ticks ?s') = Suc n"
      using Suc.prems(1) u by (simp add: s')
    moreover have "cache_ticks ?s' < process_stats_cache_ttl_ticks ?s'"
      using Suc.prems u by (simp add: s' word_less_nat_alt)
    ultimately have "process_stats_cache ((tick_cache ^^ Suc n) ?s') = Map.empty
                     \<and> cache_ticks ((tick_cache ^^ Suc n) ?s') = 0"
      by (rule Suc.IH)
    then show ?case by (simp only: funpow_Suc_right comp_def)
  qed
  qed
  obtain n where n: "unat (process_stats_cache_ttl_ticks s) - unat (cache_ticks s) = Suc n"
  proof -
    have "0 < unat (process_stats_cache_ttl_ticks s) - unat (cache_ticks s)"
      using assms by (simp add: word_less_nat_alt)
    then show ?thesis using that by (metis Suc_pred)
  qed
  show ?thesis using main [OF n assms] n by simp
qed

subsection \<open>Properties of the packet builder and the timer\<close>

definition pkt_shape :: "trace_packet \<Rightarrow> u64 \<times> bool \<times> nat" where
  "pkt_shape p = (pkt_timestamp p, pkt_incremental_state_cleared p, length (pkt_fields p))"

lemma length_update_last [simp]: "length (update_last f xs) = length xs"
  by (simp add: update_last_def)

lemma shape_edit_last [simp]:
  "map_option pkt_shape (cur_packet (edit_packet (update_last g) s)) = map_option pkt_shape (cur_packet s)"
  by (cases "cur_packet s") (simp_all add: edit_packet_def pkt_shape_def update_last_def)

lemma shape_edit_tree [simp]:
  "map_option pkt_shape (cur_packet (edit_tree f s)) = map_option pkt_shape (cur_packet s)"
  by (simp add: edit_tree_def)

lemma shape_edit_stats [simp]:
  "map_option pkt_shape (cur_packet (edit_stats f s)) = map_option pkt_shape (cur_packet s)"
  by (simp add: edit_stats_def)

lemma finalize_written:
  "map (\<lambda>p. pkt_shape p) (written (finalize_cur_packet s)) =
     map pkt_shape (written s) @ (case cur_packet s of None \<Rightarrow> [] | Some p \<Rightarrow> [pkt_shape p])"
proof -
  have "map_option pkt_shape (cur_packet (snd (get_boot_time_ns s))) = map_option pkt_shape (cur_packet s)"
    by (simp add: get_boot_time_ns_def)
  then show ?thesis
    by (cases "cur_packet s")
       (auto simp: finalize_cur_packet_def Let_def case_prod_beta commit_packet_def pkt_shape_def
             get_boot_time_ns_def edit_tree_def edit_stats_def edit_packet_def split: option.splits)
qed

definition example_config :: process_stats_config where
  "example_config =
     \<lparr>cfg_record_thread_names = True, cfg_scan_all_processes_on_start = True,
      cfg_resolve_process_fds = True, cfg_quirks = [], cfg_proc_stats_poll_ms = 50,
      cfg_proc_stats_cache_ttl_ms = 1000\<rparr>"

text \<open>
  C11. The packet builder is safe: in every state reached from a freshly constructed
  data source by any sequence of builder operations, an open ProcessTree or
  ProcessStats pointer designates the last message of the open packet, of its own kind,
  the two are never open together, and an open stats-process pointer designates the last
  process of the open ProcessStats message.
\<close>

theorem packet_builder_safe: "packet_inv (builder_run (new_data_source cfg clk) ops)"
proof -
  have "packet_inv (new_data_source cfg clk)"
    by (simp add: packet_inv_def new_data_source_def Let_def)
  then show ?thesis by (rule builder_run_inv)
qed

theorem packet_builder_safe_witness:
  "packet_inv (builder_run (new_data_source example_config 0) [BPsTree, BStatsProcess 7])
   \<and> cur_ps_stats_process (builder_run (new_data_source example_config 0) [BPsTree, BStatsProcess 7])"
proof -
  have "cur_ps_stats_process (builder_run (new_data_source example_config 0) [BPsTree, BStatsProcess 7])"
    by (simp add: builder_run_def get_or_create_stats_process_def)
  with packet_builder_safe [of example_config 0 "[BPsTree, BStatsProcess 7]"] show ?thesis by simp
qed

text \<open>
  FinalizeCurPacket hands the open packet (if any) to the trace writer, keeping its
  timestamp, its incremental-state flag and its messages, and leaves no packet, no
  message pointer and no scan timestamp behind.
\<close>

theorem finalize_cur_packet_commits:
  "map pkt_shape (written (finalize_cur_packet s)) =
     map pkt_shape (written s) @ (case cur_packet s of None \<Rightarrow> [] | Some p \<Rightarrow> [pkt_shape p])
   \<and> cur_packet (finalize_cur_packet s) = None \<and> \<not> cur_ps_tree (finalize_cur_packet s)
   \<and> \<not> cur_ps_stats (finalize_cur_packet s) \<and> \<not> cur_ps_stats_process (finalize_cur_packet s)
   \<and> cur_procfs_scan_start_timestamp (finalize_cur_packet s) = 0"
  using finalize_written [of s] finalize_closed [of s] by simp

text \<open>
  C12. The incremental-state-cleared flag reaches exactly the next packet: after
  ClearIncrementalState (and the finalisation of a packet left open), the next packet
  started carries the flag, and the packet started after that one does not.
\<close>

theorem incremental_flag_next_packet:
  "map_option pkt_incremental_state_cleared
     (cur_packet (start_new_packet_if_needed (finalize_cur_packet (clear_incremental_state s)))) = Some True
   \<and> map_option pkt_incremental_state_cleared
       (cur_packet (start_new_packet_if_needed (finalize_cur_packet
          (start_new_packet_if_needed (finalize_cur_packet (clear_incremental_state s)))))) = Some False"
proof -
  let ?s1 = "finalize_cur_packet (clear_incremental_state s)"
  let ?s2 = "finalize_cur_packet (start_new_packet_if_needed ?s1)"
  have c1: "cur_packet ?s1 = None" and c2: "cur_packet ?s2 = None"
    using finalize_closed by blast+
  have "did_clear_incremental_state ?s1"
    by (simp add: clear_incremental_state_def)
  with start_new_closed [OF c1] start_new_closed [OF c2] show ?thesis
    by simp
qed

text \<open>
  C13. No builder operation other than ClearIncrementalState creates or loses an
  incremental-state mark: the number of packets (written or open) that carry the flag,
  plus the pending flag, is the same after any run without ClearIncrementalState.
\<close>

theorem incremental_marks_conserved:
  "BClearIncremental \<notin> set ops \<Longrightarrow> marks (builder_run s ops) = marks s"
  unfolding builder_run_def
  by (induction ops arbitrary: s) (auto simp: builder_step_marks)

theorem incremental_marks_conserved_witness:
  "marks (builder_run (clear_incremental_state (new_data_source example_config 1))
            [BPsTree, BFinalize, BStats, BFinalize])
   = marks (clear_incremental_state (new_data_source example_config 1))"
  by (rule incremental_marks_conserved) simp

text \<open>
  C14. The constructor derives the poll period and the cache lifetime from the
  configuration: the period is 0 (no polling) when the configured one is 0, and the
  configured one raised to at least 100 ms otherwise; when polling, the cache lives for
  at least one tick, and its lifetime in milliseconds (ticks times period) is at most
  the configured ttl (or one period when the ttl is shorter) and less than one period
  short of the ttl.
\<close>

theorem new_data_source_bounds:
  "poll_period_ms (new_data_source cfg clk) =
     (if cfg_proc_stats_poll_ms cfg = 0 then 0 else max 100 (cfg_proc_stats_poll_ms cfg))
   \<and> (poll_period_ms (new_data_source cfg clk) \<noteq> 0 \<longrightarrow>
        1 \<le> process_stats_cache_ttl_ticks (new_data_source cfg clk)
        \<and> unat (process_stats_cache_ttl_ticks (new_data_source cfg clk)) * unat (poll_period_ms (new_data_source cfg clk))
            \<le> max (unat (cfg_proc_stats_cache_ttl_ms cfg)) (unat (poll_period_ms (new_data_source cfg clk)))
        \<and> unat (cfg_proc_stats_cache_ttl_ms cfg)
            < (unat (process_stats_cache_ttl_ticks (new_data_source cfg clk)) + 1) * unat (poll_period_ms (new_data_source cfg clk)))"
proof (intro conjI impI)
  assume nz: "poll_period_ms (new_data_source cfg clk) \<noteq> 0"
  note ttl = new_data_source_ttl [OF nz]
  have p: "0 < unat (poll_period_ms (new_data_source cfg clk))"
    using nz by (simp add: unat_gt_0)
  from ttl show "1 \<le> process_stats_cache_ttl_ticks (new_data_source cfg clk)" by simp
  from ttl ttl_period_bounds [OF p, of "unat (cfg_proc_stats_cache_ttl_ms cfg)"]
  show "unat (process_stats_cache_ttl_ticks (new_data_source cfg clk)) * unat (poll_period_ms (new_data_source cfg clk))
            \<le> max (unat (cfg_proc_stats_cache_ttl_ms cfg)) (unat (poll_period_ms (new_data_source cfg clk)))"
    "unat (cfg_proc_stats_cache_ttl_ms cfg)
            < (unat (process_stats_cache_ttl_ticks (new_data_source cfg clk)) + 1) * unat (poll_period_ms (new_data_source cfg clk))"
    by simp_all
qed (rule new_data_source_poll_cfg)

theorem new_data_source_bounds_witness:
  "poll_period_ms (new_data_source example_config 0) = 100
   \<and> unat (process_stats_cache_ttl_ticks (new_data_source example_config 0)) = 10"
proof -
  have p: "poll_period_ms (new_data_source example_config 0) = 100"
    using new_data_source_bounds [of example_config 0] by (simp add: example_config_def)
  with new_data_source_ttl [of example_config 0] show ?thesis
    by (simp add: example_config_def)
qed

text \<open>
  Tick re-posts itself after a delay in \<open>(0, period]\<close>: the period minus the wall
  clock's remainder modulo the period, for a positive period and a non-negative clock.
\<close>

theorem tick_delay_in_period:
  assumes "0 < period_ms" "0 \<le> now_ms"
  shows "0 < unat (tick_delay period_ms now_ms) \<and> unat (tick_delay period_ms now_ms) \<le> unat period_ms"
  by (rule tick_delay_bounds [OF assms])

theorem tick_delay_in_period_witness:
  "0 < unat (tick_delay 100 1234) \<and> unat (tick_delay 100 1234) \<le> unat (100 :: u32)"
  by (rule tick_delay_in_period) simp_all

text \<open>
  C15. The cache-tick counter stays below the cache lifetime: Tick's increment wraps it
  to 0 (clearing the cache) when it reaches the lifetime.
\<close>

theorem tick_cache_counter_bounded:
  assumes "1 \<le> process_stats_cache_ttl_ticks s" "cache_ticks s < process_stats_cache_ttl_ticks s"
  shows "cache_ticks (tick_cache s) < process_stats_cache_ttl_ticks (tick_cache s)"
  by (rule tick_cache_bound [OF assms])

theorem tick_cache_counter_bounded_witness:
  "cache_ticks (tick_cache (new_data_source example_config 0))
     < process_stats_cache_ttl_ticks (tick_cache (new_data_source example_config 0))"
  by (rule tick_cache_counter_bounded) (simp_all add: new_data_source_def example_config_def Let_def)

text \<open>
  C16. The process-stats cache expires: from any counter value below the lifetime, the
  cache is empty and the counter 0 after the remaining number of ticks.
\<close>

theorem tick_cache_expires:
  assumes "cache_ticks s < process_stats_cache_ttl_ticks s"
  shows "process_stats_cache ((tick_cache ^^ (unat (process_stats_cache_ttl_ticks s) - unat (cache_ticks s))) s)
           = Map.empty
         \<and> cache_ticks ((tick_cache ^^ (unat (process_stats_cache_ttl_ticks s) - unat (cache_ticks s))) s) = 0"
  by (rule tick_cache_clears [OF assms])

theorem tick_cache_expires_witness:
  "process_stats_cache ((tick_cache ^^ (unat (process_stats_cache_ttl_ticks (new_data_source example_config 0))
        - unat (cache_ticks (new_data_source example_config 0)))) (new_data_source example_config 0)) = Map.empty
   \<and> cache_ticks ((tick_cache ^^ (unat (process_stats_cache_ttl_ticks (new_data_source example_config 0))
        - unat (cache_ticks (new_data_source example_config 0)))) (new_data_source example_config 0)) = 0"
  by (rule tick_cache_expires) (simp add: new_data_source_def example_config_def Let_def)

subsection \<open>The frame of the packet builder\<close>

text \<open>\<open>ds_frame s\<close> forgets what the packet builder and the statistics code write: the
  open packet and its pointers, the written packets, the clocks, the scan timestamp, the
  incremental-state flag and the stats cache. What is left (the configuration, the tick
  counter, the seen pids, the tid map and the skip list) is the frame those operations
  keep.\<close>

definition ds_frame :: "ds_state \<Rightarrow> ds_state" where
  "ds_frame s =
     s\<lparr>cur_packet := None, cur_ps_tree := False, cur_ps_stats := False, cur_ps_stats_process := False,
       cur_procfs_scan_start_timestamp := 0, did_clear_incremental_state := False, written := [],
       boot_clock := 0, process_stats_cache := Map.empty\<rparr>"

lemma ds_frame_upd [simp]:
  "ds_frame (s\<lparr>cur_packet := a\<rparr>) = ds_frame s"
  "ds_frame (s\<lparr>cur_ps_tree := b\<rparr>) = ds_frame s"
  "ds_frame (s\<lparr>cur_ps_stats := b\<rparr>) = ds_frame s"
  "ds_frame (s\<lparr>cur_ps_stats_process := b\<rparr>) = ds_frame s"
  "ds_frame (s\<lparr>cur_procfs_scan_start_timestamp := t\<rparr>) = ds_frame s"
  "ds_frame (s\<lparr>did_clear_incremental_state := b\<rparr>) = ds_frame s"
  "ds_frame (s\<lparr>written := w\<rparr>) = ds_frame s"
  "ds_frame (s\<lparr>boot_clock := t\<rparr>) = ds_frame s"
  "ds_frame (s\<lparr>process_stats_cache := c\<rparr>) = ds_frame s"
  by (simp_all add: ds_frame_def)

lemma ds_frame_fields [simp]:
  "record_thread_names (ds_frame s) = record_thread_names s"
  "dump_all_procs_on_start (ds_frame s) = dump_all_procs_on_start s"
  "resolve_process_fds (ds_frame s) = resolve_process_fds s"
  "enable_on_demand_dumps (ds_frame s) = enable_on_demand_dumps s"
  "poll_period_ms (ds_frame s) = poll_period_ms s"
  "process_stats_cache_ttl_ticks (ds_frame s) = process_stats_cache_ttl_ticks s"
  "cache_ticks (ds_frame s) = cache_ticks s"
  "seen_pids (ds_frame s) = seen_pids s"
  "tids_to_pids (ds_frame s) = tids_to_pids s"
  "skip_stats_for_pids (ds_frame s) = skip_stats_for_pids s"
  by (simp_all add: ds_frame_def)

lemma frame_builder [frame_simps]:
  "ds_frame (snd (get_boot_time_ns s)) = ds_frame s"
  "ds_frame (snd (cache_procfs_scan_start_timestamp s)) = ds_frame s"
  "ds_frame (start_new_packet_if_needed s) = ds_frame s"
  "ds_frame (edit_packet f s) = ds_frame s"
  "ds_frame (get_or_create_ps_tree s) = ds_frame s"
  "ds_frame (get_or_create_stats s) = ds_frame s"
  "ds_frame (get_or_create_stats_process pid s) = ds_frame s"
  "ds_frame (finalize_cur_packet s) = ds_frame s"
  by (simp_all add: get_boot_time_ns_def cache_procfs_scan_start_timestamp_def case_prod_beta
      start_new_packet_if_needed_def edit_packet_def get_or_create_ps_tree_def get_or_create_stats_def
      get_or_create_stats_process_def finalize_cur_packet_def commit_packet_def edit_tree_def
      edit_stats_def Let_def)

lemma frame_edits [frame_simps]:
  "ds_frame (add_tree_process p s) = ds_frame s"
  "ds_frame (add_tree_thread th s) = ds_frame s"
  "ds_frame (set_stats_counter pid f v s) = ds_frame s"
  "ds_frame (add_stats_fd pid e s) = ds_frame s"
  by (simp_all add: add_tree_process_def add_tree_thread_def set_stats_counter_def add_stats_fd_def
      edit_tree_def edit_stats_def edit_stats_process_def frame_builder)

text \<open>Two states with the same frame agree on each field the frame keeps.\<close>

lemma ds_frame_eqD:
  assumes "ds_frame s' = ds_frame s"
  shows "poll_period_ms s' = poll_period_ms s" "process_stats_cache_ttl_ticks s' = process_stats_cache_ttl_ticks s"
    "cache_ticks s' = cache_ticks s" "seen_pids s' = seen_pids s" "tids_to_pids s' = tids_to_pids s"
    "record_thread_names s' = record_thread_names s" "resolve_process_fds s' = resolve_process_fds s"
    "enable_on_demand_dumps s' = enable_on_demand_dumps s"
    "skip_stats_for_pids s' = skip_stats_for_pids s"
  using arg_cong [OF assms, of poll_period_ms] arg_cong [OF assms, of process_stats_cache_ttl_ticks]
    arg_cong [OF assms, of cache_ticks] arg_cong [OF assms, of seen_pids] arg_cong [OF assms, of tids_to_pids]
    arg_cong [OF assms, of record_thread_names] arg_cong [OF assms, of resolve_process_fds]
    arg_cong [OF assms, of enable_on_demand_dumps] arg_cong [OF assms, of skip_stats_for_pids]
  by simp_all

end
