(* ===== verification/ProcStats.thy ===== *)
theory ProcStats
  imports StatusParse DataSourceState
begin

text \<open>
  The per-process statistics of \<^verbatim>\<open>ProcessStatsDataSource\<close>: \<^verbatim>\<open>WriteMemCounters\<close>
  (the character-level scanner of \<^verbatim>\<open>/proc/<pid>/status\<close>), \<^verbatim>\<open>WriteSingleFd\<close>,
  \<^verbatim>\<open>WriteFds\<close> and \<^verbatim>\<open>OnFds\<close>. The procfs the data source reads is an explicit
  environment \<open>procfs\<close>: the entries of \<^verbatim>\<open>/proc\<close>, of each \<^verbatim>\<open>task\<close> and
  \<^verbatim>\<open>fd\<close> directory, the contents of each pid file and the target of each fd link;
  \<open>None\<close> is a failed \<^verbatim>\<open>opendir\<close>, \<^verbatim>\<open>ReadFile\<close> or \<^verbatim>\<open>readlink\<close>.
\<close>

subsection \<open>The procfs environment\<close>

record procfs =
  pf_proc :: "dirent list option"
  pf_task :: "int \<Rightarrow> dirent list option"
  pf_fd_dir :: "int \<Rightarrow> dirent list option"
  pf_file :: "int \<Rightarrow> char list \<Rightarrow> char list option"
  pf_link :: "int \<Rightarrow> u64 \<Rightarrow> char list option"

definition read_proc_pid_file :: "procfs \<Rightarrow> int \<Rightarrow> char list \<Rightarrow> char list" where
  "read_proc_pid_file env pid file = (case pf_file env pid file of None \<Rightarrow> [] | Some c \<Rightarrow> c)"

definition readlink_path :: "procfs \<Rightarrow> int \<Rightarrow> u64 \<Rightarrow> char list option" where
  "readlink_path env pid fd = map_option (take 256) (pf_link env pid fd)"

text \<open>\<^verbatim>\<open>base::CStringToUInt64\<close>: \<^verbatim>\<open>strtoull\<close> must consume the whole, non-empty
  string; a negated value wraps modulo \<open>2^64\<close> and a larger one saturates.\<close>

definition cstring_to_uint64 :: "char list \<Rightarrow> u64 option" where
  "cstring_to_uint64 s =
     (let nws = length (takeWhile c_isspace s);
          r = drop nws s;
          neg = (r \<noteq> [] \<and> hd r = CHR ''-'');
          nsign = (if r \<noteq> [] \<and> (hd r = CHR ''-'' \<or> hd r = CHR ''+'') then 1 else 0);
          ds = takeWhile c_isdigit (drop nsign r);
          v = min (digits_value 0 ds) (2 ^ 64 - 1)
      in if s \<noteq> [] \<and> ds \<noteq> [] \<and> nws + nsign + length ds = length s
         then Some (word_of_int (if neg then - v else v)) else None)"

subsection \<open>The process-stats cache\<close>

text \<open>\<^verbatim>\<open>process_stats_cache_[pid]\<close> inserts a default-constructed entry when the pid
  has none.\<close>

definition cache_touch :: "int \<Rightarrow> ds_state \<Rightarrow> ds_state" where
  "cache_touch pid s =
     (if process_stats_cache s pid = None
      then s\<lparr>process_stats_cache := (process_stats_cache s)(pid \<mapsto> cached_default)\<rparr> else s)"

definition cached_of :: "int \<Rightarrow> ds_state \<Rightarrow> cached_stats" where
  "cached_of pid s = (case process_stats_cache s pid of None \<Rightarrow> cached_default | Some c \<Rightarrow> c)"

definition set_cached :: "int \<Rightarrow> cached_stats \<Rightarrow> ds_state \<Rightarrow> ds_state" where
  "set_cached pid c s = s\<lparr>process_stats_cache := (process_stats_cache s)(pid \<mapsto> c)\<rparr>"

subsection \<open>WriteMemCounters\<close>

text \<open>The memory counters the scanner recognises, by the key of their line.\<close>

fun mem_counter_field :: "char list \<Rightarrow> stat_field option" where
  "mem_counter_field k =
     (if k = ''VmSize'' then Some VmSizeKb
      else if k = ''VmLck'' then Some VmLockedKb
      else if k = ''VmHWM'' then Some VmHwmKb
      else if k = ''VmRSS'' then Some VmRssKb
      else if k = ''RssAnon'' then Some RssAnonKb
      else if k = ''RssFile'' then Some RssFileKb
      else if k = ''RssShmem'' then Some RssShmemKb
      else if k = ''VmSwap'' then Some VmSwapKb
      else None)"

fun cached_counter :: "stat_field \<Rightarrow> cached_stats \<Rightarrow> u32" where
  "cached_counter VmSizeKb c = vm_size_kb c"
| "cached_counter VmLockedKb c = vm_locked_kb c"
| "cached_counter VmHwmKb c = vm_hvm_kb c"
| "cached_counter VmRssKb c = vm_rss_kb c"
| "cached_counter RssAnonKb c = rss_anon_kb c"
| "cached_counter RssFileKb c = rss_file_kb c"
| "cached_counter RssShmemKb c = rss_shmem_kb c"
| "cached_counter VmSwapKb c = vm_swap_kb c"
| "cached_counter OomScoreAdj c = word_of_int (oom_score_adj c)"

fun set_cached_counter :: "stat_field \<Rightarrow> u32 \<Rightarrow> cached_stats \<Rightarrow> cached_stats" where
  "set_cached_counter VmSizeKb v c = c\<lparr>vm_size_kb := v\<rparr>"
| "set_cached_counter VmLockedKb v c = c\<lparr>vm_locked_kb := v\<rparr>"
| "set_cached_counter VmHwmKb v c = c\<lparr>vm_hvm_kb := v\<rparr>"
| "set_cached_counter VmRssKb v c = c\<lparr>vm_rss_kb := v\<rparr>"
| "set_cached_counter RssAnonKb v c = c\<lparr>rss_anon_kb := v\<rparr>"
| "set_cached_counter RssFileKb v c = c\<lparr>rss_file_kb := v\<rparr>"
| "set_cached_counter RssShmemKb v c = c\<lparr>rss_shmem_kb := v\<rparr>"
| "set_cached_counter VmSwapKb v c = c\<lparr>vm_swap_kb := v\<rparr>"
| "set_cached_counter OomScoreAdj v c = c\<lparr>oom_score_adj := sint v\<rparr>"

text \<open>One recognised line: \<open>ToU32\<close> of the value buffer, written to the stats
  process and to the cache only when it differs from the cached value.\<close>

definition write_counter :: "int \<Rightarrow> stat_field \<Rightarrow> u32 \<Rightarrow> ds_state \<Rightarrow> ds_state" where
  "write_counter pid f counter s =
     (if counter \<noteq> cached_counter f (cached_of pid s)
      then set_cached pid (set_cached_counter f counter (cached_of pid s))
             (set_stats_counter pid f (uint counter) s)
      else s)"

datatype mc_phase = kKey | kSeparator | kValue

record mc_scan =
  mc_key :: "char list"
  mc_value :: "char list"
  mc_phase :: mc_phase
  mc_has :: bool
  mc_ds :: ds_state

definition mc_newline :: "int \<Rightarrow> mc_scan \<Rightarrow> mc_scan" where
  "mc_newline pid m =
     (let key = mc_key m @ [CHR 0x00];
          value = mc_value m @ [CHR 0x00];
          k = cstr key;
          s' = (case mem_counter_field k of
                  None \<Rightarrow> mc_ds m
                | Some f \<Rightarrow> write_counter pid f (to_u32 (cstr value)) (mc_ds m))
      in m\<lparr>mc_key := [], mc_value := value, mc_phase := kKey,
           mc_has := (mc_has m \<or> k = ''VmSize''), mc_ds := s'\<rparr>)"

fun mc_char :: "int \<Rightarrow> mc_scan \<Rightarrow> char \<Rightarrow> mc_scan" where
  "mc_char pid m c =
     (if c = CHR 0x0A then mc_newline pid m
      else case mc_phase m of
             kKey \<Rightarrow> (if c = CHR '':'' then m\<lparr>mc_phase := kSeparator\<rparr>
                      else m\<lparr>mc_key := mc_key m @ [c]\<rparr>)
           | kSeparator \<Rightarrow> (if c_isspace c then m
                            else m\<lparr>mc_value := [c], mc_phase := kValue\<rparr>)
           | kValue \<Rightarrow> m\<lparr>mc_value := mc_value m @ [c]\<rparr>)"

definition write_mem_counters :: "int \<Rightarrow> char list \<Rightarrow> ds_state \<Rightarrow> bool \<times> ds_state" where
  "write_mem_counters pid proc_status s =
     (let m = fold (\<lambda>c m. mc_char pid m c) proc_status
                \<lparr>mc_key = [], mc_value = [], mc_phase = kKey, mc_has = False,
                 mc_ds = cache_touch pid s\<rparr>
      in (mc_has m, mc_ds m))"

subsection \<open>File descriptors\<close>

definition write_single_fd :: "procfs \<Rightarrow> int \<Rightarrow> u64 \<Rightarrow> ds_state \<Rightarrow> ds_state" where
  "write_single_fd env tid fd s =
     (let pid = (case tids_to_pids s tid of Some p \<Rightarrow> p | None \<Rightarrow> tid);
          s1 = cache_touch pid s;
          c = cached_of pid s1
      in if fd \<in> seen_fds c then s1
         else case readlink_path env pid fd of
                None \<Rightarrow> s1
              | Some path \<Rightarrow>
                  set_cached pid (c\<lparr>seen_fds := insert fd (seen_fds c)\<rparr>)
                    (add_stats_fd pid \<lparr>fd_num = fd, fd_path = path\<rparr> s1))"

fun write_fd_entries :: "procfs \<Rightarrow> int \<Rightarrow> dirent list \<Rightarrow> ds_state \<Rightarrow> ds_state" where
  "write_fd_entries env pid [] s = s"
| "write_fd_entries env pid (e # es) s =
     (if d_type e \<noteq> DT_LNK then write_fd_entries env pid es s
      else case cstring_to_uint64 (d_name e) of
             None \<Rightarrow> write_fd_entries env pid es s
           | Some fd \<Rightarrow> write_fd_entries env pid es (write_single_fd env pid fd s))"

definition write_fds :: "procfs \<Rightarrow> int \<Rightarrow> ds_state \<Rightarrow> ds_state" where
  "write_fds env pid s =
     (if \<not> resolve_process_fds s then s
      else case pf_fd_dir env pid of None \<Rightarrow> s | Some es \<Rightarrow> write_fd_entries env pid es s)"

text \<open>\<^verbatim>\<open>OnFds\<close> receives a map from pids to sets of fds; the iteration order of the
  \<^verbatim>\<open>unordered_map\<close> is the order of the list, and each \<^verbatim>\<open>FlatSet\<close> is sorted.\<close>

definition on_fds :: "procfs \<Rightarrow> (int \<times> u64 list) list \<Rightarrow> ds_state \<Rightarrow> ds_state" where
  "on_fds env fds s =
     (if \<not> resolve_process_fds s then s
      else finalize_cur_packet
             (fold (\<lambda>(pid, fs) s. fold (write_single_fd env pid) fs (s\<lparr>cur_ps_stats_process := False\<rparr>))
                fds s))"

subsection \<open>The scanner line by line\<close>

text \<open>The character automaton of \<^verbatim>\<open>WriteMemCounters\<close> read one line at a time:
  the key of a line is its text up to the first colon; the value buffer is refilled
  from the first non-blank character after the colon, and is left as it was when the
  line has no such character.\<close>

definition line_value :: "char list \<Rightarrow> char list \<Rightarrow> char list" where
  "line_value old line =
     (let fresh = dropWhile c_isspace (drop (Suc (length (takeWhile (\<lambda>c. c \<noteq> CHR '':'') line))) line)
      in if fresh = [] then old else fresh)"

definition mem_line :: "int \<Rightarrow> mc_scan \<Rightarrow> char list \<Rightarrow> mc_scan" where
  "mem_line pid m line =
     mc_newline pid (m\<lparr>mc_key := takeWhile (\<lambda>c. c \<noteq> CHR '':'') line,
                       mc_value := line_value (mc_value m) line\<rparr>)"

declare mc_char.simps [simp del]

lemma mc_char_newline [simp]: "mc_char pid m (CHR 0x0A) = mc_newline pid m"
  by (simp add: mc_char.simps)

lemma mc_char_key [simp]:
  "c \<noteq> CHR 0x0A \<Longrightarrow> mc_phase m = kKey \<Longrightarrow>
   mc_char pid m c = (if c = CHR '':'' then m\<lparr>mc_phase := kSeparator\<rparr> else m\<lparr>mc_key := mc_key m @ [c]\<rparr>)"
  by (simp add: mc_char.simps)

lemma mc_char_sep [simp]:
  "c \<noteq> CHR 0x0A \<Longrightarrow> mc_phase m = kSeparator \<Longrightarrow>
   mc_char pid m c = (if c_isspace c then m else m\<lparr>mc_value := [c], mc_phase := kValue\<rparr>)"
  by (simp add: mc_char.simps)

lemma mc_char_value [simp]:
  "c \<noteq> CHR 0x0A \<Longrightarrow> mc_phase m = kValue \<Longrightarrow> mc_char pid m c = m\<lparr>mc_value := mc_value m @ [c]\<rparr>"
  by (simp add: mc_char.simps)

lemma mc_value_run:
  "CHR 0x0A \<notin> set cs \<Longrightarrow> mc_phase m = kValue \<Longrightarrow>
   fold (\<lambda>c m. mc_char pid m c) cs m = m\<lparr>mc_value := mc_value m @ cs\<rparr>"
  by (induction cs arbitrary: m) auto

lemma mc_sep_run:
  assumes "CHR 0x0A \<notin> set cs" "mc_phase m = kSeparator"
  shows "fold (\<lambda>c m. mc_char pid m c) cs m =
           (if dropWhile c_isspace cs = [] then m
            else m\<lparr>mc_value := dropWhile c_isspace cs, mc_phase := kValue\<rparr>)"
  using assms
proof (induction cs arbitrary: m)
  case (Cons c cs)
  then have c: "c \<noteq> CHR 0x0A" and cs: "CHR 0x0A \<notin> set cs" by auto
  show ?case
  proof (cases "c_isspace c")
    case True
    with c Cons.prems have "mc_char pid m c = m" by simp
    with True Cons.IH [OF cs Cons.prems(2)] show ?thesis by simp
  next
    case False
    with c Cons.prems have "mc_char pid m c = m\<lparr>mc_value := [c], mc_phase := kValue\<rparr>" by simp
    with False cs show ?thesis by (simp add: mc_value_run)
  qed
qed simp

lemma mc_key_run:
  assumes "CHR 0x0A \<notin> set cs" "mc_phase m = kKey"
  shows "fold (\<lambda>c m. mc_char pid m c) cs m =
           (if CHR '':'' \<notin> set cs then m\<lparr>mc_key := mc_key m @ cs\<rparr>
            else fold (\<lambda>c m. mc_char pid m c) (drop (Suc (length (takeWhile (\<lambda>c. c \<noteq> CHR '':'') cs))) cs)
                   (m\<lparr>mc_key := mc_key m @ takeWhile (\<lambda>c. c \<noteq> CHR '':'') cs, mc_phase := kSeparator\<rparr>))"
  using assms
proof (induction cs arbitrary: m)
  case (Cons c cs)
  then have c: "c \<noteq> CHR 0x0A" and cs: "CHR 0x0A \<notin> set cs" by auto
  show ?case
  proof (cases "c = CHR '':''")
    case True
    with c Cons.prems have "mc_char pid m c = m\<lparr>mc_phase := kSeparator\<rparr>" by simp
    with True show ?thesis by simp
  next
    case False
    with c Cons.prems have "mc_char pid m c = m\<lparr>mc_key := mc_key m @ [c]\<rparr>" by simp
    with False Cons.IH [OF cs, of "m\<lparr>mc_key := mc_key m @ [c]\<rparr>"] Cons.prems(2) show ?thesis by simp
  qed
qed simp

lemma mc_newline_phase_upd [simp]: "mc_newline pid (m\<lparr>mc_phase := x\<rparr>) = mc_newline pid m"
  by (simp add: mc_newline_def Let_def)

lemma mc_line:
  assumes "CHR 0x0A \<notin> set line" "mc_phase m = kKey" "mc_key m = []"
  shows "fold (\<lambda>c m. mc_char pid m c) (line @ [CHR 0x0A]) m = mem_line pid m line"
proof (cases "CHR '':'' \<in> set line")
  case False
  then have "takeWhile (\<lambda>c. c \<noteq> CHR '':'') line = line"
    using False by (auto simp: takeWhile_eq_all_conv)
  moreover have "line_value (mc_value m) line = mc_value m"
  proof -
    have tw: "length (takeWhile (\<lambda>c. c \<noteq> CHR '':'') line) = length line"
      by (simp only: \<open>takeWhile (\<lambda>c. c \<noteq> CHR '':'') line = line\<close>)
    show ?thesis by (simp only: line_value_def Let_def tw) simp
  qed
  moreover have "fold (\<lambda>c m. mc_char pid m c) line m = m\<lparr>mc_key := line\<rparr>"
    using mc_key_run [OF assms(1,2)] False assms(3) by simp
  ultimately show ?thesis
    by (simp only: mem_line_def) simp
next
  case True
  let ?k = "takeWhile (\<lambda>c. c \<noteq> CHR '':'') line"
  let ?rest = "drop (Suc (length ?k)) line"
  let ?m1 = "m\<lparr>mc_key := ?k, mc_phase := kSeparator\<rparr>"
  have nl: "CHR 0x0A \<notin> set ?rest" using assms(1) by (meson in_set_dropD)
  have run1: "fold (\<lambda>c m. mc_char pid m c) line m = fold (\<lambda>c m. mc_char pid m c) ?rest ?m1"
    using mc_key_run [OF assms(1,2)] True assms(3) by simp
  have run2: "fold (\<lambda>c m. mc_char pid m c) ?rest ?m1 =
      (if dropWhile c_isspace ?rest = [] then ?m1
       else ?m1\<lparr>mc_value := dropWhile c_isspace ?rest, mc_phase := kValue\<rparr>)"
    by (rule mc_sep_run [OF nl]) simp
  have "fold (\<lambda>c m. mc_char pid m c) (line @ [CHR 0x0A]) m =
      mc_newline pid (fold (\<lambda>c m. mc_char pid m c) line m)"
    by simp
  also have "\<dots> = mc_newline pid (m\<lparr>mc_key := ?k, mc_value := line_value (mc_value m) line\<rparr>)"
  proof -
    define d where "d = dropWhile c_isspace ?rest"
    show ?thesis
      unfolding run1 run2 line_value_def Let_def d_def [symmetric] by (cases "d = []") simp_all
  qed
  finally show ?thesis by (simp only: mem_line_def)
qed

definition status_text :: "char list list \<Rightarrow> char list" where
  "status_text ls = concat (map (\<lambda>l. l @ [CHR 0x0A]) ls)"

lemma mc_newline_phase [simp]: "mc_phase (mc_newline pid m) = kKey" "mc_key (mc_newline pid m) = []"
  by (simp_all add: mc_newline_def Let_def)

lemma mem_line_phase [simp]: "mc_phase (mem_line pid m l) = kKey" "mc_key (mem_line pid m l) = []"
  by (simp_all add: mem_line_def)

lemma mc_lines:
  assumes "\<forall>l \<in> set ls. CHR 0x0A \<notin> set l" "mc_phase m = kKey" "mc_key m = []"
  shows "fold (\<lambda>c m. mc_char pid m c) (status_text ls) m = fold (\<lambda>l m. mem_line pid m l) ls m"
  using assms
proof (induction ls arbitrary: m)
  case (Cons l ls)
  have "status_text (l # ls) = (l @ [CHR 0x0A]) @ status_text ls"
    by (simp add: status_text_def)
  then have "fold (\<lambda>c m. mc_char pid m c) (status_text (l # ls)) m =
      fold (\<lambda>c m. mc_char pid m c) (status_text ls) (fold (\<lambda>c m. mc_char pid m c) (l @ [CHR 0x0A]) m)"
    by (simp only: fold_append o_apply)
  also have "fold (\<lambda>c m. mc_char pid m c) (l @ [CHR 0x0A]) m = mem_line pid m l"
    by (rule mc_line) (use Cons.prems in auto)
  finally show ?case
    using Cons.prems Cons.IH [of "mem_line pid m l"] by simp
qed (simp add: status_text_def)

lemma mc_char_keeps:
  "c \<noteq> CHR 0x0A \<Longrightarrow> mc_has (mc_char pid m c) = mc_has m \<and> mc_ds (mc_char pid m c) = mc_ds m"
  by (simp add: mc_char.simps split: mc_phase.split)

lemma mc_partial_line:
  "CHR 0x0A \<notin> set cs \<Longrightarrow>
   mc_has (fold (\<lambda>c m. mc_char pid m c) cs m) = mc_has m \<and> mc_ds (fold (\<lambda>c m. mc_char pid m c) cs m) = mc_ds m"
proof (induction cs arbitrary: m)
  case (Cons c cs)
  then have "c \<noteq> CHR 0x0A" "CHR 0x0A \<notin> set cs" by auto
  with Cons.IH [of "mc_char pid m c"] mc_char_keeps [of c pid m] show ?case by simp
qed simp

definition mc_init :: "int \<Rightarrow> ds_state \<Rightarrow> mc_scan" where
  "mc_init pid s = \<lparr>mc_key = [], mc_value = [], mc_phase = kKey, mc_has = False, mc_ds = cache_touch pid s\<rparr>"

lemma write_mem_counters_fold:
  assumes "\<forall>l \<in> set ls. CHR 0x0A \<notin> set l" "CHR 0x0A \<notin> set tail"
  shows "write_mem_counters pid (status_text ls @ tail) s =
           (mc_has (fold (\<lambda>l m. mem_line pid m l) ls (mc_init pid s)),
            mc_ds (fold (\<lambda>l m. mem_line pid m l) ls (mc_init pid s)))"
proof -
  have "fold (\<lambda>c m. mc_char pid m c) (status_text ls) (mc_init pid s) =
        fold (\<lambda>l m. mem_line pid m l) ls (mc_init pid s)"
    by (rule mc_lines) (simp_all add: assms(1) mc_init_def)
  then show ?thesis
    using mc_partial_line [OF assms(2)] by (simp add: write_mem_counters_def mc_init_def [symmetric])
qed

text \<open>
  C17. The character automaton of WriteMemCounters implements the line-level reading:
  on a status file of complete lines (and a last, unterminated fragment), its result
  and its effect are those of reading each line as key, separator and value.
\<close>

theorem write_mem_counters_lines:
  assumes "\<forall>l \<in> set ls. CHR 0x0A \<notin> set l" "CHR 0x0A \<notin> set tail"
  shows "write_mem_counters pid (status_text ls @ tail) s =
           (mc_has (fold (\<lambda>l m. mem_line pid m l) ls (mc_init pid s)),
            mc_ds (fold (\<lambda>l m. mem_line pid m l) ls (mc_init pid s)))"
  by (rule write_mem_counters_fold [OF assms])

theorem write_mem_counters_lines_witness:
  "write_mem_counters 5 (status_text [''VmSize:  10 kB''] @ []) (new_data_source example_config 1) =
     (mc_has (fold (\<lambda>l m. mem_line 5 m l) [''VmSize:  10 kB''] (mc_init 5 (new_data_source example_config 1))),
      mc_ds (fold (\<lambda>l m. mem_line 5 m l) [''VmSize:  10 kB''] (mc_init 5 (new_data_source example_config 1))))"
  by (rule write_mem_counters_lines) simp_all


lemma mem_line_has: "mc_has (mem_line pid m l) \<longleftrightarrow> mc_has m \<or> cstr (takeWhile (\<lambda>c. c \<noteq> CHR '':'') l) = ''VmSize''"
  by (simp add: mem_line_def mc_newline_def Let_def)

lemma mem_lines_has:
  "mc_has (fold (\<lambda>l m. mem_line pid m l) ls m) \<longleftrightarrow>
     mc_has m \<or> (\<exists>l \<in> set ls. cstr (takeWhile (\<lambda>c. c \<noteq> CHR '':'') l) = ''VmSize'')"
  by (induction ls arbitrary: m) (auto simp: mem_line_has)

text \<open>
  C18. WriteMemCounters reports memory counters exactly when the status file has a
  complete line whose key is \<^verbatim>\<open>VmSize\<close>.
\<close>

theorem write_mem_counters_result:
  assumes "\<forall>l \<in> set ls. CHR 0x0A \<notin> set l" "CHR 0x0A \<notin> set tail"
  shows "fst (write_mem_counters pid (status_text ls @ tail) s) \<longleftrightarrow>
           (\<exists>l \<in> set ls. cstr (takeWhile (\<lambda>c. c \<noteq> CHR '':'') l) = ''VmSize'')"
  using write_mem_counters_fold [OF assms] by (simp add: mem_lines_has mc_init_def)

theorem write_mem_counters_result_witness:
  "fst (write_mem_counters 5 (status_text [''Name:  cat'', ''VmSize:  10 kB''] @ ''VmRSS'')
          (new_data_source example_config 1))"
  using write_mem_counters_result [of "[''Name:  cat'', ''VmSize:  10 kB'']" "''VmRSS''" 5
      "new_data_source example_config 1"]
  by (simp add: cstr_def)

lemma cache_touch_tids [simp]: "tids_to_pids (cache_touch pid s) = tids_to_pids s"
  by (simp add: cache_touch_def)

lemma cache_touch_some [simp]: "process_stats_cache (cache_touch pid s) pid \<noteq> None"
  by (simp add: cache_touch_def)

lemma cache_touch_id: "process_stats_cache s pid \<noteq> None \<Longrightarrow> cache_touch pid s = s"
  unfolding cache_touch_def by auto

lemma cache_touch_idem [simp]: "cache_touch pid (cache_touch pid s) = cache_touch pid s"
  by (simp add: cache_touch_id)

lemma add_stats_fd_cache [simp]:
  "process_stats_cache (add_stats_fd pid e s) = process_stats_cache s"
  "tids_to_pids (add_stats_fd pid e s) = tids_to_pids s"
  by (simp_all add: add_stats_fd_def edit_stats_process_def edit_stats_def edit_packet_def
      get_or_create_stats_process_def get_or_create_stats_def start_new_packet_if_needed_def
      cache_procfs_scan_start_timestamp_def get_boot_time_ns_def Let_def case_prod_beta)

text \<open>
  C19. WriteSingleFd records each fd of a process once: a second call for the same
  thread and fd changes nothing.
\<close>

theorem write_single_fd_idem:
  "write_single_fd env tid fd (write_single_fd env tid fd s) = write_single_fd env tid fd s"
proof -
  define pid where "pid = (case tids_to_pids s tid of Some p \<Rightarrow> p | None \<Rightarrow> tid)"
  define s1 where "s1 = cache_touch pid s"
  have t: "tids_to_pids (write_single_fd env tid fd s) = tids_to_pids s"
    by (simp add: write_single_fd_def Let_def set_cached_def split: option.splits)
  show ?thesis
  proof (cases "fd \<in> seen_fds (cached_of pid s1) \<or> readlink_path env pid fd = None")
    case True
    then have "write_single_fd env tid fd s = s1"
      by (auto simp: write_single_fd_def pid_def s1_def Let_def)
    with True show ?thesis
      by (auto simp: write_single_fd_def Let_def pid_def s1_def)
  next
    case False
    then obtain path where p: "readlink_path env pid fd = Some path" and n: "fd \<notin> seen_fds (cached_of pid s1)"
      by auto
    have w: "write_single_fd env tid fd s =
        set_cached pid ((cached_of pid s1)\<lparr>seen_fds := insert fd (seen_fds (cached_of pid s1))\<rparr>)
          (add_stats_fd pid \<lparr>fd_num = fd, fd_path = path\<rparr> s1)"
      using p n by (simp add: write_single_fd_def pid_def s1_def Let_def)
    have "fd \<in> seen_fds (cached_of pid (write_single_fd env tid fd s))"
      by (simp add: w set_cached_def cached_of_def)
    moreover have "process_stats_cache (write_single_fd env tid fd s) pid \<noteq> None"
      by (simp add: w set_cached_def)
    ultimately show ?thesis
      by (simp add: write_single_fd_def [of env tid fd "write_single_fd env tid fd s"] t Let_def
          pid_def [symmetric] cache_touch_id)
  qed
qed

fun field_processes :: "packet_field \<Rightarrow> stats_process list" where
  "field_processes (StatsField p) = ps_processes p"
| "field_processes (TreeField t) = []"

definition open_stats_processes :: "ds_state \<Rightarrow> stats_process list" where
  "open_stats_processes s =
     (case cur_packet s of None \<Rightarrow> [] | Some p \<Rightarrow> concat (map field_processes (pkt_fields p)))"

lemma cstr_prefix_nul [simp]: "cstr (xs @ CHR 0x00 # ys) = cstr xs"
  by (induction xs) (auto simp: cstr_def)

lemma cached_set_cached_counter [simp]: "cached_counter f (set_cached_counter f v c) = v"
  by (cases f) simp_all

lemma write_counter_cached:
  "cached_counter f (cached_of pid (write_counter pid f v s)) = v"
  by (simp add: write_counter_def set_cached_def cached_of_def)

lemma mem_line_value: "mc_value (mem_line pid m l) = line_value (mc_value m) l @ [CHR 0x00]"
  by (simp add: mem_line_def mc_newline_def Let_def)

lemma mem_line_ds:
  "mc_ds (mem_line pid m l) =
     (case mem_counter_field (cstr (takeWhile (\<lambda>c. c \<noteq> CHR '':'') l)) of
        None \<Rightarrow> mc_ds m
      | Some f \<Rightarrow> write_counter pid f (to_u32 (cstr (line_value (mc_value m) l))) (mc_ds m))"
  by (simp add: mem_line_def mc_newline_def Let_def)

lemma line_value_split:
  assumes "CHR '':'' \<notin> set k" "\<forall>c \<in> set ws. c_isspace c"
  shows "line_value old (k @ CHR '':'' # ws @ v) = (if dropWhile c_isspace v = [] then old else dropWhile c_isspace v)"
  using assms by (auto simp: line_value_def Let_def takeWhile_append dropWhile_append dropWhile_eq_Nil_conv)

text \<open>
  C20. WriteMemCounters does not clear its value buffer at the end of a line: whatever
  lines come before, a counter line whose value is empty (\<open>VmSwap:\<close> followed only by
  blanks) is recorded with the value of the line before it, whatever that line's key.
\<close>

theorem write_mem_counters_stale_value:
  assumes lines: "\<forall>l \<in> set (ls @ [k1 @ CHR '':'' # ws1 @ v, k2 @ CHR '':'' # ws2]). CHR 0x0A \<notin> set l"
      "CHR 0x0A \<notin> set tail"
    and l1: "CHR '':'' \<notin> set k1" "\<forall>c \<in> set ws1. c_isspace c" "v \<noteq> []" "\<not> c_isspace (hd v)"
    and l2: "CHR '':'' \<notin> set k2" "\<forall>c \<in> set ws2. c_isspace c" "mem_counter_field (cstr k2) = Some f"
  shows "cached_counter f (cached_of pid
           (snd (write_mem_counters pid
              (status_text (ls @ [k1 @ CHR '':'' # ws1 @ v, k2 @ CHR '':'' # ws2]) @ tail) s)))
         = to_u32 (cstr v)"
proof -
  let ?l1 = "k1 @ CHR '':'' # ws1 @ v" and ?l2 = "k2 @ CHR '':'' # ws2"
  define m where "m = fold (\<lambda>l m. mem_line pid m l) ls (mc_init pid s)"
  have "snd (write_mem_counters pid (status_text (ls @ [?l1, ?l2]) @ tail) s)
          = mc_ds (mem_line pid (mem_line pid m ?l1) ?l2)"
    using write_mem_counters_fold [OF lines] by (simp add: m_def)
  moreover have "dropWhile c_isspace v = v"
    using l1(3,4) by (cases v) simp_all
  then have "mc_value (mem_line pid m ?l1) = v @ [CHR 0x00]"
    using l1 by (simp add: mem_line_value line_value_split)
  moreover have "line_value (v @ [CHR 0x00]) ?l2 = v @ [CHR 0x00]"
    using line_value_split [OF l2(1,2), of _ "[]"] by simp
  moreover have "takeWhile (\<lambda>c. c \<noteq> CHR '':'') ?l2 = k2"
    using l2(1) by (simp add: takeWhile_append)
  ultimately show ?thesis
    using l2(3) by (simp add: mem_line_ds write_counter_cached)
qed

theorem write_mem_counters_stale_value_witness:
  "cached_counter VmSwapKb (cached_of 5
     (snd (write_mem_counters 5 (status_text [''VmRSS:  100 kB'', ''VmSwap:'']) (new_data_source example_config 1))))
   = 100"
proof -
  have "cached_counter VmSwapKb (cached_of 5
     (snd (write_mem_counters 5 (status_text ([] @ [''VmRSS'' @ CHR '':'' # ''  '' @ ''100 kB'', ''VmSwap'' @ CHR '':'' # []]) @ [])
        (new_data_source example_config 1)))) = to_u32 (cstr ''100 kB'')"
    by (rule write_mem_counters_stale_value) (simp_all add: c_isspace_def cstr_def)
  moreover have "to_u32 (cstr ''100 kB'') = 100"
    by code_simp
  ultimately show ?thesis by simp
qed
text \<open>The counters reported for \<^verbatim>\<open>VmRSS: 100 kB\<close> followed by \<^verbatim>\<open>VmSwap:\<close>.\<close>

lemma write_mem_counters_stale_example:
  "map sp_counters (open_stats_processes
     (snd (write_mem_counters 5 (status_text [''VmRSS:  100 kB'', ''VmSwap:''])
        (new_data_source example_config 1))))
   = [[(VmRssKb, 100), (VmSwapKb, 100)]]"
  unfolding example_config_def by code_simp

subsection \<open>The frame of the statistics code\<close>

lemma frame_cache [frame_simps]:
  "ds_frame (cache_touch pid s) = ds_frame s"
  "ds_frame (set_cached pid c s) = ds_frame s"
  "ds_frame (write_counter pid f x s) = ds_frame s"
  by (simp_all add: cache_touch_def set_cached_def write_counter_def frame_edits)

lemma frame_mc_char: "ds_frame (mc_ds (mc_char pid m c)) = ds_frame (mc_ds m)"
  by (simp add: mc_char.simps mc_newline_def Let_def frame_cache split: mc_phase.split option.split)

lemma frame_write_mem_counters [frame_simps]:
  "ds_frame (snd (write_mem_counters pid st s)) = ds_frame s"
proof -
  have "ds_frame (mc_ds (fold (\<lambda>c m. mc_char pid m c) cs m)) = ds_frame (mc_ds m)" for cs m
    by (induction cs arbitrary: m) (simp_all add: frame_mc_char)
  then show ?thesis by (simp add: write_mem_counters_def Let_def frame_cache)
qed

lemma frame_fds [frame_simps]:
  "ds_frame (write_single_fd env pid fd s) = ds_frame s"
  "ds_frame (write_fd_entries env pid es s) = ds_frame s"
  "ds_frame (write_fds env pid s) = ds_frame s"
  "ds_frame (on_fds env fds s) = ds_frame s"
proof -
  show sf: "ds_frame (write_single_fd env pid fd s) = ds_frame s" for env pid fd s
    by (simp add: write_single_fd_def Let_def frame_cache frame_edits split: option.split)
  show fe: "ds_frame (write_fd_entries env pid es s) = ds_frame s" for env pid es s
    by (induction env pid es s rule: write_fd_entries.induct) (simp_all add: sf split: option.split)
  show "ds_frame (write_fds env pid s) = ds_frame s"
    by (simp add: write_fds_def fe split: option.split)
  have "ds_frame (fold (write_single_fd env pid) fs s) = ds_frame s" for pid fs s
    by (induction fs arbitrary: s) (simp_all add: sf)
  then have "ds_frame (fold (\<lambda>(pid, fs) s. fold (write_single_fd env pid) fs (s\<lparr>cur_ps_stats_process := False\<rparr>)) fds s)
             = ds_frame s" for s
    by (induction fds arbitrary: s) (auto simp: case_prod_beta)
  then show "ds_frame (on_fds env fds s) = ds_frame s"
    by (simp add: on_fds_def frame_builder)
qed

end
