(* ===== verification/ProcessDump.thy ===== *)
theory ProcessDump
  imports ProcStats
begin

text \<open>
  The process-tree dumps of \<^verbatim>\<open>ProcessStatsDataSource\<close>: \<^verbatim>\<open>WriteProcess\<close>,
  \<^verbatim>\<open>WriteThread\<close>, \<^verbatim>\<open>WriteProcessOrThread\<close>, \<^verbatim>\<open>WriteProcessTree\<close>,
  \<^verbatim>\<open>OnPids\<close>, \<^verbatim>\<open>OnRenamePids\<close> and \<^verbatim>\<open>WriteAllProcesses\<close>. The length of the
  \<^verbatim>\<open>TidArray\<close> the namespaced ids are read into is fixed by the header, which is not
  under \<^verbatim>\<open>src/\<close>; it is the argument \<open>tlen\<close>. A \<^verbatim>\<open>base::FlatSet\<close> of pids is
  its sorted list. The only fault is the one of \<^verbatim>\<open>ReadNamespacedTids\<close>.
\<close>

subsection \<open>Processes and threads\<close>

text \<open>The namespaced ids up to the first 0 of the \<^verbatim>\<open>TidArray\<close>.\<close>

definition ns_ids :: "int list \<Rightarrow> int list" where
  "ns_ids arr = takeWhile (\<lambda>x. x \<noteq> 0) arr"

text \<open>The command line: the NUL-separated arguments (a missing final NUL added, empty
  arguments skipped by \<^verbatim>\<open>StringSplitter\<close>), or the \<^verbatim>\<open>Name:\<close> of the status file
  when the command line is empty.\<close>

definition cmdline_args :: "char list \<Rightarrow> char list \<Rightarrow> char list list" where
  "cmdline_args cmdline proc_status =
     (if cmdline \<noteq> []
      then string_splitter_tokens CHR 0x00
             (if last cmdline \<noteq> CHR 0x00 then cmdline @ [CHR 0x00] else cmdline)
      else [cstr (read_proc_status_entry proc_status ''Name:'')])"

definition write_process ::
  "procfs \<Rightarrow> nat \<Rightarrow> int \<Rightarrow> char list \<Rightarrow> ds_state \<Rightarrow> nstid_error + ds_state" where
  "write_process env tlen pid proc_status s =
     bind_sum (read_namespaced_tids pid proc_status (replicate tlen 0)) (\<lambda>nspids.
       let p = \<lparr>pr_pid = pid,
                pr_ppid = to_int (read_proc_status_entry proc_status ''PPid:''),
                pr_uid = to_int (read_proc_status_entry proc_status ''Uid:''),
                pr_nspid = ns_ids nspids,
                pr_cmdline = cmdline_args (read_proc_pid_file env pid ''cmdline'') proc_status\<rparr>;
           s1 = add_tree_process p s
       in Inr (s1\<lparr>seen_pids := insert pid (seen_pids s1),
                   tids_to_pids := map_emplace (tids_to_pids s1) pid pid\<rparr>))"

definition write_thread ::
  "nat \<Rightarrow> int \<Rightarrow> int \<Rightarrow> char list option \<Rightarrow> char list \<Rightarrow> ds_state \<Rightarrow> nstid_error + ds_state" where
  "write_thread tlen tid tgid optional_name proc_status s =
     bind_sum (read_namespaced_tids tid proc_status (replicate tlen 0)) (\<lambda>nstids.
       let th = \<lparr>th_tid = tid, th_tgid = tgid, th_name = optional_name, th_nstid = ns_ids nstids\<rparr>;
           s1 = add_tree_thread th s
       in Inr (s1\<lparr>seen_pids := insert tid (seen_pids s1),
                   tids_to_pids := map_emplace (tids_to_pids s1) tid tgid\<rparr>))"

definition write_process_or_thread ::
  "procfs \<Rightarrow> nat \<Rightarrow> int \<Rightarrow> ds_state \<Rightarrow> nstid_error + ds_state" where
  "write_process_or_thread env tlen pid s =
     (let s0 = snd (cache_procfs_scan_start_timestamp s);
          proc_status = read_proc_pid_file env pid ''status''
      in if proc_status = [] then Inr s0
         else
           let tgid = to_int (read_proc_status_entry proc_status ''Tgid:'');
               tid = to_int (read_proc_status_entry proc_status ''Pid:'')
           in if tgid \<le> 0 \<or> tid \<le> 0 then Inr s0
              else
                bind_sum
                  (if tgid \<notin> seen_pids s0
                   then write_process env tlen tgid
                          (if tgid = tid then proc_status else read_proc_pid_file env tgid ''status'') s0
                   else Inr s0)
                  (\<lambda>s1. if pid \<noteq> tgid
                        then let thread_name = (if record_thread_names s1
                                                 then read_proc_status_entry proc_status ''Name:'' else [])
                             in write_thread tlen pid tgid
                                  (if thread_name = [] then None else Some (cstr thread_name)) proc_status s1
                        else Inr s1))"

fun write_pids :: "procfs \<Rightarrow> nat \<Rightarrow> int list \<Rightarrow> ds_state \<Rightarrow> nstid_error + ds_state" where
  "write_pids env tlen [] s = Inr s"
| "write_pids env tlen (pid # pids) s =
     (if pid \<in> seen_pids s \<or> pid = 0 then write_pids env tlen pids s
      else bind_sum (write_process_or_thread env tlen pid s) (write_pids env tlen pids))"

definition write_process_tree :: "procfs \<Rightarrow> nat \<Rightarrow> int list \<Rightarrow> ds_state \<Rightarrow> nstid_error + ds_state" where
  "write_process_tree env tlen pids s =
     bind_sum (write_pids env tlen pids s) (\<lambda>s1. Inr (finalize_cur_packet s1))"

definition on_pids :: "procfs \<Rightarrow> nat \<Rightarrow> int list \<Rightarrow> ds_state \<Rightarrow> nstid_error + ds_state" where
  "on_pids env tlen pids s =
     (if \<not> enable_on_demand_dumps s then Inr s else write_process_tree env tlen pids s)"

definition on_rename_pids :: "int list \<Rightarrow> ds_state \<Rightarrow> ds_state" where
  "on_rename_pids pids s =
     (if \<not> enable_on_demand_dumps s then s else s\<lparr>seen_pids := seen_pids s - set pids\<rparr>)"

subsection \<open>The full scan\<close>

lemma read_next_numeric_dir_shorter:
  "fst (read_next_numeric_dir es) \<noteq> 0 \<Longrightarrow> length (snd (read_next_numeric_dir es)) < length es"
  by (induction es rule: read_next_numeric_dir.induct)
     (auto split: if_splits option.splits)

function scan_tasks :: "procfs \<Rightarrow> nat \<Rightarrow> int \<Rightarrow> dirent list \<Rightarrow> ds_state \<Rightarrow> nstid_error + ds_state" where
  "scan_tasks env tlen pid ts s =
     (let r = read_next_numeric_dir ts; tid = fst r
      in if tid = 0 then Inr s
         else if tid = pid then scan_tasks env tlen pid (snd r) s
         else bind_sum
                (if record_thread_names s then write_process_or_thread env tlen tid s
                 else write_thread tlen tid pid None (read_proc_pid_file env tid ''status'') s)
                (scan_tasks env tlen pid (snd r)))"
  by pat_completeness auto
termination
  by (relation "measure (\<lambda>(env, tlen, pid, ts, s). length ts)")
     (auto simp: read_next_numeric_dir_shorter)

function scan_procs :: "procfs \<Rightarrow> nat \<Rightarrow> dirent list \<Rightarrow> ds_state \<Rightarrow> nstid_error + ds_state" where
  "scan_procs env tlen es s =
     (let r = read_next_numeric_dir es; pid = fst r
      in if pid = 0 then Inr s
         else bind_sum (write_process_or_thread env tlen pid s) (\<lambda>s1.
                case pf_task env pid of
                  None \<Rightarrow> scan_procs env tlen (snd r) s1
                | Some ts \<Rightarrow> bind_sum (scan_tasks env tlen pid ts s1) (scan_procs env tlen (snd r))))"
  by pat_completeness auto
termination
  by (relation "measure (\<lambda>(env, tlen, es, s). length es)")
     (auto simp: read_next_numeric_dir_shorter)

declare scan_tasks.simps [simp del] scan_procs.simps [simp del]

text \<open>The loop over \<^verbatim>\<open>seen_pids_\<close> (a \<^verbatim>\<open>std::set\<close>, so in ascending order) that
  collects the fds open at start-up.\<close>

definition write_all_fds :: "procfs \<Rightarrow> ds_state \<Rightarrow> ds_state" where
  "write_all_fds env s = fold (write_fds env) (sorted_list_of_set (seen_pids s)) s"

definition write_all_processes :: "procfs \<Rightarrow> nat \<Rightarrow> ds_state \<Rightarrow> nstid_error + ds_state" where
  "write_all_processes env tlen s =
     (let s0 = snd (cache_procfs_scan_start_timestamp s)
      in case pf_proc env of
           None \<Rightarrow> Inr s0
         | Some es \<Rightarrow>
             bind_sum (scan_procs env tlen es s0) (\<lambda>s1.
               let s2 = finalize_cur_packet s1;
                   s3 = write_all_fds env s2
               in Inr (finalize_cur_packet s3)))"

subsection \<open>The open ProcessTree\<close>

fun field_tree_processes :: "packet_field \<Rightarrow> proc_entry list" where
  "field_tree_processes (TreeField t) = pt_processes t"
| "field_tree_processes (StatsField p) = []"

definition open_tree_processes :: "ds_state \<Rightarrow> proc_entry list" where
  "open_tree_processes s =
     (case cur_packet s of None \<Rightarrow> [] | Some p \<Rightarrow> concat (map field_tree_processes (pkt_fields p)))"

lemma open_tree_start_new [simp]:
  "open_tree_processes (start_new_packet_if_needed s) = open_tree_processes s"
  by (auto simp: open_tree_processes_def start_new_packet_if_needed_def case_prod_beta
      cache_procfs_scan_start_timestamp_def get_boot_time_ns_def Let_def)

lemma open_tree_flag_upd [simp]:
  "open_tree_processes (s\<lparr>cur_ps_tree := a\<rparr>) = open_tree_processes s"
  "open_tree_processes (s\<lparr>cur_ps_stats := a\<rparr>) = open_tree_processes s"
  "open_tree_processes (s\<lparr>cur_ps_stats_process := a\<rparr>) = open_tree_processes s"
  "open_tree_processes (s\<lparr>seen_pids := P\<rparr>) = open_tree_processes s"
  "open_tree_processes (s\<lparr>tids_to_pids := m\<rparr>) = open_tree_processes s"
  by (simp_all add: open_tree_processes_def)

lemma open_tree_add_empty:
  "cur_packet s \<noteq> None \<Longrightarrow>
   open_tree_processes (edit_packet (\<lambda>fs. fs @ [TreeField empty_tree]) s) = open_tree_processes s"
  by (auto simp: open_tree_processes_def edit_packet_def empty_tree_def)

lemma open_tree_get_or_create [simp]:
  "open_tree_processes (get_or_create_ps_tree s) = open_tree_processes s"
  by (simp add: get_or_create_ps_tree_def Let_def open_tree_add_empty start_new_packet_open)

lemma open_tree_edit_last:
  assumes "last_is is_tree_field s"
  shows "open_tree_processes (edit_tree (\<lambda>t. t\<lparr>pt_processes := pt_processes t @ [p]\<rparr>) s) =
         open_tree_processes s @ [p]"
proof -
  from assms obtain pk t where pk: "cur_packet s = Some pk" and ne: "pkt_fields pk \<noteq> []"
    and t: "last (pkt_fields pk) = TreeField t"
    by (auto simp: last_is_def split: option.splits elim!: is_tree_field.elims)
  then obtain xs where fs: "pkt_fields pk = xs @ [TreeField t]"
    by (metis append_butlast_last_id)
  show ?thesis
    using pk by (simp add: open_tree_processes_def edit_tree_def edit_packet_def fs)
qed

lemma open_tree_add_process:
  "packet_inv s \<Longrightarrow> open_tree_processes (add_tree_process p s) = open_tree_processes s @ [p]"
proof -
  assume "packet_inv s"
  then have "packet_inv (get_or_create_ps_tree s) \<and> cur_ps_tree (get_or_create_ps_tree s)"
    by (rule get_or_create_ps_tree_inv)
  then have "last_is is_tree_field (get_or_create_ps_tree s)"
    by (simp add: packet_inv_def)
  then show ?thesis
    by (simp add: add_tree_process_def open_tree_edit_last)
qed

subsection \<open>The dumps keep the packet invariant\<close>

lemma packet_inv_bookkeeping [simp]:
  "packet_inv (s\<lparr>seen_pids := P\<rparr>) = packet_inv s"
  "packet_inv (s\<lparr>tids_to_pids := m\<rparr>) = packet_inv s"
  "packet_inv (s\<lparr>cur_procfs_scan_start_timestamp := t\<rparr>) = packet_inv s"
  "packet_inv (s\<lparr>boot_clock := c\<rparr>) = packet_inv s"
  by (simp_all add: packet_inv_def last_is_def)

lemma add_tree_process_inv: "packet_inv s \<Longrightarrow> packet_inv (add_tree_process p s)"
  using builder_step_inv [of s "BAddProcess p"] by simp

lemma add_tree_thread_inv: "packet_inv s \<Longrightarrow> packet_inv (add_tree_thread th s)"
  using builder_step_inv [of s "BAddThread th"] by simp

lemma cache_scan_inv: "packet_inv s \<Longrightarrow> packet_inv (snd (cache_procfs_scan_start_timestamp s))"
  by (simp add: cache_procfs_scan_start_timestamp_def get_boot_time_ns_def case_prod_beta Let_def)

lemma write_process_inv:
  "packet_inv s \<Longrightarrow> write_process env tlen pid st s = Inr s' \<Longrightarrow> packet_inv s'"
  by (auto simp: write_process_def Let_def bind_sum_eq_Inr add_tree_process_inv)

lemma write_thread_inv:
  "packet_inv s \<Longrightarrow> write_thread tlen tid tgid n st s = Inr s' \<Longrightarrow> packet_inv s'"
  by (auto simp: write_thread_def Let_def bind_sum_eq_Inr add_tree_thread_inv)

lemma write_process_or_thread_Inr:
  assumes "write_process_or_thread env tlen pid s = Inr s'"
  shows "\<exists>s1. (s1 = snd (cache_procfs_scan_start_timestamp s)
               \<or> (\<exists>pid' st. write_process env tlen pid' st (snd (cache_procfs_scan_start_timestamp s)) = Inr s1))
             \<and> (s' = s1 \<or> (\<exists>tid tgid n st. write_thread tlen tid tgid n st s1 = Inr s'))"
proof -
  define s0 where "s0 = snd (cache_procfs_scan_start_timestamp s)"
  define st where "st = read_proc_pid_file env pid ''status''"
  define tgid where "tgid = to_int (read_proc_status_entry st ''Tgid:'')"
  define tid where "tid = to_int (read_proc_status_entry st ''Pid:'')"
  define first where "first = (if tgid \<notin> seen_pids s0
                               then write_process env tlen tgid
                                      (if tgid = tid then st else read_proc_pid_file env tgid ''status'') s0
                               else Inr s0)"
  define name :: "ds_state \<Rightarrow> char list" where "name = (\<lambda>s1. if record_thread_names s1 then read_proc_status_entry st ''Name:'' else [])"
  have r: "write_process_or_thread env tlen pid s =
      (if st = [] then Inr s0 else if tgid \<le> 0 \<or> tid \<le> 0 then Inr s0
       else bind_sum first (\<lambda>s1. if pid \<noteq> tgid
              then write_thread tlen pid tgid (if name s1 = [] then None else Some (cstr (name s1))) st s1
              else Inr s1))"
    by (simp only: write_process_or_thread_def Let_def s0_def st_def tgid_def tid_def first_def name_def)
  have f: "first = Inr s1 \<Longrightarrow> s1 = s0 \<or> (\<exists>pid' st'. write_process env tlen pid' st' s0 = Inr s1)" for s1
    by (auto simp: first_def split: if_splits)
  show ?thesis
  proof (cases "st = [] \<or> tgid \<le> 0 \<or> tid \<le> 0")
    case True
    with assms r show ?thesis by (auto simp: s0_def split: if_splits)
  next
    case False
    then have "write_process_or_thread env tlen pid s = bind_sum first (\<lambda>s1. if pid \<noteq> tgid
              then write_thread tlen pid tgid (if name s1 = [] then None else Some (cstr (name s1))) st s1
              else Inr s1)"
      using r by simp
    with assms obtain s1 where s1: "first = Inr s1"
      and rest: "(if pid \<noteq> tgid
                  then write_thread tlen pid tgid (if name s1 = [] then None else Some (cstr (name s1))) st s1
                  else Inr s1) = Inr s'"
      by (auto simp: bind_sum_eq_Inr)
    from rest have "s' = s1 \<or> (\<exists>tid tgid n st. write_thread tlen tid tgid n st s1 = Inr s')"
      by (auto split: if_splits)
    with f [OF s1] have "(s1 = s0 \<or> (\<exists>pid' st'. write_process env tlen pid' st' s0 = Inr s1))
        \<and> (s' = s1 \<or> (\<exists>tid tgid n st. write_thread tlen tid tgid n st s1 = Inr s'))"
      by blast
    then show ?thesis unfolding s0_def by blast
  qed
qed

lemma write_process_or_thread_preserves:
  assumes cache: "\<And>s. P s \<Longrightarrow> P (snd (cache_procfs_scan_start_timestamp s))"
    and proc: "\<And>s s' pid st. P s \<Longrightarrow> write_process env tlen pid st s = Inr s' \<Longrightarrow> P s'"
    and thr: "\<And>s s' tid tgid n st. P s \<Longrightarrow> write_thread tlen tid tgid n st s = Inr s' \<Longrightarrow> P s'"
    and P: "P s" and r: "write_process_or_thread env tlen pid s = Inr s'"
  shows "P s'"
  using write_process_or_thread_Inr [OF r] cache [OF P] proc thr by blast

lemma write_pids_preserves:
  assumes step: "\<And>s s' pid. P s \<Longrightarrow> write_process_or_thread env tlen pid s = Inr s' \<Longrightarrow> P s'"
  shows "P s \<Longrightarrow> write_pids env tlen pids s = Inr s' \<Longrightarrow> P s'"
proof (induction pids arbitrary: s)
  case (Cons pid pids)
  then show ?case
    by (auto simp: bind_sum_eq_Inr split: if_splits dest: step)
qed simp

lemma write_process_tree_preserves:
  assumes step: "\<And>s s' pid. P s \<Longrightarrow> write_process_or_thread env tlen pid s = Inr s' \<Longrightarrow> P s'"
    and fin: "\<And>s. P s \<Longrightarrow> P (finalize_cur_packet s)"
    and P: "P s" and r: "write_process_tree env tlen pids s = Inr s'"
  shows "P s'"
  using r write_pids_preserves [of P, OF step P] fin
  by (auto simp: write_process_tree_def bind_sum_eq_Inr)


lemma write_process_or_thread_inv:
  "packet_inv s \<Longrightarrow> write_process_or_thread env tlen pid s = Inr s' \<Longrightarrow> packet_inv s'"
  by (rule write_process_or_thread_preserves [where P = packet_inv])
     (auto intro: cache_scan_inv write_process_inv write_thread_inv)

lemma write_pids_inv:
  "packet_inv s \<Longrightarrow> write_pids env tlen pids s = Inr s' \<Longrightarrow> packet_inv s'"
  by (rule write_pids_preserves [where P = packet_inv]) (auto intro: write_process_or_thread_inv)

lemma scan_tasks_preserves:
  assumes step: "\<And>env tlen s s' pid. P s \<Longrightarrow> write_process_or_thread env tlen pid s = Inr s' \<Longrightarrow> P s'"
    and thr: "\<And>s s' tlen tid tgid n st. P s \<Longrightarrow> write_thread tlen tid tgid n st s = Inr s' \<Longrightarrow> P s'"
  shows "P s \<Longrightarrow> scan_tasks env tlen pid ts s = Inr s' \<Longrightarrow> P s'"
proof (induction env tlen pid ts s rule: scan_tasks.induct)
  case (1 env tlen pid ts s)
  let ?r = "read_next_numeric_dir ts"
  show ?case
  proof (cases "fst ?r = 0")
    case True
    with "1.prems" show ?thesis by (simp add: scan_tasks.simps [of env tlen pid ts s])
  next
    case nz: False
    show ?thesis
    proof (cases "fst ?r = pid")
      case True
      with nz "1.prems" "1.IH"(1) [OF refl refl nz True] show ?thesis
        by (simp add: scan_tasks.simps [of env tlen pid ts s])
    next
      case False
      with nz "1.prems"(2) obtain a where
        a: "(if record_thread_names s then write_process_or_thread env tlen (fst ?r) s
             else write_thread tlen (fst ?r) pid None (read_proc_pid_file env (fst ?r) ''status'') s) = Inr a"
        and rest: "scan_tasks env tlen pid (snd ?r) a = Inr s'"
        by (auto simp: scan_tasks.simps [of env tlen pid ts s] Let_def bind_sum_eq_Inr)
      from a "1.prems"(1) have "P a"
        by (auto split: if_splits intro: step thr)
      with "1.IH"(2) [OF refl refl nz False] rest show ?thesis by simp
    qed
  qed
qed

lemma scan_procs_preserves:
  assumes step: "\<And>env tlen s s' pid. P s \<Longrightarrow> write_process_or_thread env tlen pid s = Inr s' \<Longrightarrow> P s'"
    and thr: "\<And>s s' tlen tid tgid n st. P s \<Longrightarrow> write_thread tlen tid tgid n st s = Inr s' \<Longrightarrow> P s'"
  shows "P s \<Longrightarrow> scan_procs env tlen es s = Inr s' \<Longrightarrow> P s'"
proof (induction env tlen es s rule: scan_procs.induct)
  case (1 env tlen es s)
  let ?r = "read_next_numeric_dir es"
  show ?case
  proof (cases "fst ?r = 0")
    case True
    with "1.prems" show ?thesis by (simp add: scan_procs.simps [of env tlen es s])
  next
    case nz: False
    with "1.prems"(2) obtain a where a: "write_process_or_thread env tlen (fst ?r) s = Inr a"
      and rest: "(case pf_task env (fst ?r) of
                    None \<Rightarrow> scan_procs env tlen (snd ?r) a
                  | Some ts \<Rightarrow> bind_sum (scan_tasks env tlen (fst ?r) ts a) (scan_procs env tlen (snd ?r)))
                 = Inr s'"
      by (auto simp: scan_procs.simps [of env tlen es s] Let_def bind_sum_eq_Inr)
    from "1.prems"(1) a have inv_a: "P a" by (rule step)
    show ?thesis
    proof (cases "pf_task env (fst ?r)")
      case None
      with rest inv_a "1.IH"(1) [OF refl refl nz None] show ?thesis by simp
    next
      case (Some ts)
      with rest obtain b where b: "scan_tasks env tlen (fst ?r) ts a = Inr b"
        and rest2: "scan_procs env tlen (snd ?r) b = Inr s'"
        by (auto simp: bind_sum_eq_Inr)
      from scan_tasks_preserves [of P, OF step thr inv_a b] have "P b" .
      with rest2 "1.IH"(2) [OF refl refl nz Some] show ?thesis by simp
    qed
  qed
qed

lemma scan_procs_inv:
  "packet_inv s \<Longrightarrow> scan_procs env tlen es s = Inr s' \<Longrightarrow> packet_inv s'"
  by (rule scan_procs_preserves [where P = packet_inv, OF write_process_or_thread_inv write_thread_inv])

subsection \<open>An example procfs\<close>

definition example_procfs :: procfs where
  "example_procfs =
     \<lparr>pf_proc = Some [\<lparr>d_name = ''1'', d_type = DT_DIR\<rparr>, \<lparr>d_name = ''self'', d_type = DT_LNK\<rparr>,
                     \<lparr>d_name = ''2'', d_type = DT_DIR\<rparr>],
      pf_task = (\<lambda>p. if p = 2 then Some [\<lparr>d_name = ''2'', d_type = DT_DIR\<rparr>, \<lparr>d_name = ''3'', d_type = DT_DIR\<rparr>]
                     else None),
      pf_fd_dir = (\<lambda>p. Some [\<lparr>d_name = ''0'', d_type = DT_LNK\<rparr>]),
      pf_file = (\<lambda>p f.
        if f = ''status'' then
          Some (''Name:'' @ [CHR 0x09] @ (if p = 1 then ''init'' else ''app'') @ [CHR 0x0A] @
                ''Tgid:'' @ [CHR 0x09] @ (if p = 1 then ''1'' else ''2'') @ [CHR 0x0A] @
                ''Pid:'' @ [CHR 0x09] @ (if p = 1 then ''1'' else if p = 2 then ''2'' else ''3'') @ [CHR 0x0A] @
                ''PPid:'' @ [CHR 0x09] @ ''1'' @ [CHR 0x0A] @ ''Uid:'' @ [CHR 0x09] @ ''1000'' @ [CHR 0x0A])
        else if f = ''cmdline'' then Some (if p = 1 then ''/init'' @ [CHR 0x00] else [])
        else None),
      pf_link = (\<lambda>p fd. Some (if p = 1 then ''/dev/null'' else ''/data/log''))\<rparr>"

subsection \<open>Properties of the process dumps\<close>

text \<open>
  C23. WriteProcess appends one process to the open ProcessTree: its pid, the
  \<^verbatim>\<open>PPid:\<close> and \<^verbatim>\<open>Uid:\<close> of its status file, its namespaced pids and its
  command line, and marks the pid as seen and mapped to itself.
\<close>

theorem write_process_entry:
  assumes "packet_inv s" "read_namespaced_tids pid proc_status (replicate tlen 0) = Inr arr"
  shows "\<exists>s'. write_process env tlen pid proc_status s = Inr s'
           \<and> open_tree_processes s' = open_tree_processes s @
               [\<lparr>pr_pid = pid,
                 pr_ppid = to_int (read_proc_status_entry proc_status ''PPid:''),
                 pr_uid = to_int (read_proc_status_entry proc_status ''Uid:''),
                 pr_nspid = ns_ids arr,
                 pr_cmdline = cmdline_args (read_proc_pid_file env pid ''cmdline'') proc_status\<rparr>]
           \<and> pid \<in> seen_pids s' \<and> tids_to_pids s' pid \<noteq> None \<and> packet_inv s'"
  using assms
  by (simp add: write_process_def Let_def open_tree_add_process add_tree_process_inv map_emplace_def)

theorem write_process_entry_witness:
  "\<exists>s'. write_process example_procfs 4 1 (read_proc_pid_file example_procfs 1 ''status'')
          (new_data_source example_config 1) = Inr s'
     \<and> open_tree_processes s' = open_tree_processes (new_data_source example_config 1) @
         [\<lparr>pr_pid = 1,
           pr_ppid = to_int (read_proc_status_entry (read_proc_pid_file example_procfs 1 ''status'') ''PPid:''),
           pr_uid = to_int (read_proc_status_entry (read_proc_pid_file example_procfs 1 ''status'') ''Uid:''),
           pr_nspid = ns_ids [0, 0, 0, 0],
           pr_cmdline = cmdline_args (read_proc_pid_file example_procfs 1 ''cmdline'')
                          (read_proc_pid_file example_procfs 1 ''status'')\<rparr>]
     \<and> 1 \<in> seen_pids s' \<and> tids_to_pids s' 1 \<noteq> None \<and> packet_inv s'"
proof -
  have inv: "packet_inv (new_data_source example_config 1)"
    by (simp add: packet_inv_def new_data_source_def Let_def)
  have ns: "read_namespaced_tids 1 (read_proc_pid_file example_procfs 1 ''status'') (replicate 4 0) = Inr [0, 0, 0, 0]"
    unfolding example_procfs_def read_proc_pid_file_def by code_simp
  show ?thesis using write_process_entry [OF inv ns] by simp
qed

text \<open>
  C24. WriteProcessTree does not dump a pid again: on a list of pids all seen before
  (or 0) it only finalises the open packet.
\<close>

theorem write_process_tree_skips_seen:
  "\<forall>pid \<in> set pids. pid \<in> seen_pids s \<or> pid = 0 \<Longrightarrow>
   write_process_tree env tlen pids s = Inr (finalize_cur_packet s)"
proof -
  assume "\<forall>pid \<in> set pids. pid \<in> seen_pids s \<or> pid = 0"
  then have "write_pids env tlen pids s = Inr s" by (induction pids) auto
  then show ?thesis by (simp add: write_process_tree_def)
qed

theorem write_process_tree_skips_seen_witness:
  "write_process_tree example_procfs 4 [0, 7] ((new_data_source example_config 1)\<lparr>seen_pids := {7}\<rparr>)
     = Inr (finalize_cur_packet ((new_data_source example_config 1)\<lparr>seen_pids := {7}\<rparr>))"
  by (rule write_process_tree_skips_seen) simp

subsection \<open>The fds collected at start-up\<close>

text \<open>The stats-process entries of the open packet, the fds they hold, and the shape
  the fd loop of WriteAllProcesses keeps: either nothing is open, or the open packet is
  one ProcessStats message with one process entry, which the stats-process pointer
  designates.\<close>

definition stats_fds :: "ds_state \<Rightarrow> fd_entry list" where
  "stats_fds s = concat (map sp_fds (open_stats_processes s))"

definition one_stats_entry :: "ds_state \<Rightarrow> bool" where
  "one_stats_entry s \<longleftrightarrow>
     (cur_packet s = None \<and> \<not> cur_ps_stats s \<and> \<not> cur_ps_stats_process s)
     \<or> (cur_ps_stats_process s \<and>
        (\<exists>p st e. cur_packet s = Some p \<and> pkt_fields p = [StatsField st] \<and> ps_processes st = [e]))"

lemma update_last_single [simp]: "update_last f [x] = [f x]"
  using update_last_snoc [of f "[]" x] by simp

lemma one_stats_entry_length: "one_stats_entry s \<Longrightarrow> length (open_stats_processes s) \<le> 1"
  by (auto simp: one_stats_entry_def open_stats_processes_def)

lemma add_stats_fd_one_entry:
  assumes "one_stats_entry s"
  shows "one_stats_entry (add_stats_fd pid e s) \<and> stats_fds (add_stats_fd pid e s) = stats_fds s @ [e]"
  using assms
  by (auto simp: one_stats_entry_def stats_fds_def open_stats_processes_def add_stats_fd_def
      edit_stats_process_def edit_stats_def edit_packet_def get_or_create_stats_process_def
      get_or_create_stats_def start_new_packet_if_needed_def case_prod_beta empty_stats_def Let_def)

definition fds_in_entry :: "ds_state \<Rightarrow> ds_state \<Rightarrow> bool" where
  "fds_in_entry x0 s \<longleftrightarrow> one_stats_entry s \<and>
     (\<forall>pid. seen_fds (cached_of pid s) \<subseteq> seen_fds (cached_of pid x0) \<union> fd_num ` set (stats_fds s))"

lemma cache_ops_entry [simp]:
  "one_stats_entry (cache_touch pid s) = one_stats_entry s"
  "stats_fds (cache_touch pid s) = stats_fds s"
  "cached_of q (cache_touch pid s) = cached_of q s"
  "one_stats_entry (set_cached pid c s) = one_stats_entry s"
  "stats_fds (set_cached pid c s) = stats_fds s"
  "cached_of q (set_cached pid c s) = (if q = pid then c else cached_of q s)"
  "cached_of q (add_stats_fd pid e s) = cached_of q s"
  by (simp_all add: cache_touch_def set_cached_def one_stats_entry_def stats_fds_def
      open_stats_processes_def cached_of_def)

lemma write_single_fd_entry:
  assumes "fds_in_entry x0 s"
  shows "fds_in_entry x0 (write_single_fd env tid fd s)"
proof -
  define pid where "pid = (case tids_to_pids s tid of Some p \<Rightarrow> p | None \<Rightarrow> tid)"
  define s1 where "s1 = cache_touch pid s"
  have s1: "fds_in_entry x0 s1"
    using assms by (simp add: s1_def fds_in_entry_def)
  show ?thesis
  proof (cases "fd \<in> seen_fds (cached_of pid s1) \<or> readlink_path env pid fd = None")
    case True
    then have "write_single_fd env tid fd s = s1"
      by (auto simp: write_single_fd_def pid_def s1_def Let_def)
    with s1 show ?thesis by simp
  next
    case False
    then obtain path where p: "readlink_path env pid fd = Some path" and n: "fd \<notin> seen_fds (cached_of pid s1)"
      by auto
    let ?e = "\<lparr>fd_num = fd, fd_path = path\<rparr>"
    have w: "write_single_fd env tid fd s =
        set_cached pid ((cached_of pid s1)\<lparr>seen_fds := insert fd (seen_fds (cached_of pid s1))\<rparr>)
          (add_stats_fd pid ?e s1)"
      using p n by (simp add: write_single_fd_def pid_def s1_def Let_def)
    from s1 have one: "one_stats_entry s1" by (simp add: fds_in_entry_def)
    note a = add_stats_fd_one_entry [OF one, of pid ?e]
    from s1 a show ?thesis
      unfolding w fds_in_entry_def by auto
  qed
qed

lemma write_fds_entry:
  "fds_in_entry x0 s \<Longrightarrow> fds_in_entry x0 (write_fds env pid s)"
proof -
  have "fds_in_entry x0 s \<Longrightarrow> fds_in_entry x0 (write_fd_entries env pid es s)" for es s
    by (induction env pid es s rule: write_fd_entries.induct)
       (auto split: option.splits intro: write_single_fd_entry)
  then show "fds_in_entry x0 s \<Longrightarrow> fds_in_entry x0 (write_fds env pid s)"
    by (simp add: write_fds_def split: option.splits)
qed

lemma fold_write_fds_entry:
  "fds_in_entry x0 s \<Longrightarrow> fds_in_entry x0 (fold (write_fds env) pids s)"
  by (induction pids arbitrary: s) (auto intro: write_fds_entry)

lemma cached_of_finalize [simp]: "cached_of pid (finalize_cur_packet s) = cached_of pid s"
  by (simp add: cached_of_def finalize_cur_packet_def commit_packet_def Let_def case_prod_beta
      get_boot_time_ns_def edit_tree_def edit_stats_def edit_packet_def)

lemma finalize_fds_in_entry: "fds_in_entry (finalize_cur_packet s) (finalize_cur_packet s)"
  using finalize_closed [of s] by (simp add: fds_in_entry_def one_stats_entry_def)

lemma frame_write_all_fds: "ds_frame (write_all_fds env s) = ds_frame s"
proof -
  have "ds_frame (fold (write_fds env) pids x) = ds_frame x" for pids x
    by (induction pids arbitrary: x) (simp_all add: frame_fds)
  then show ?thesis by (simp add: write_all_fds_def)
qed

text \<open>
  C26. WriteAllProcesses attributes the fds of every process to one entry: its loop over
  \<^verbatim>\<open>seen_pids_\<close>, run after FinalizeCurPacket, calls WriteFds without resetting
  \<^verbatim>\<open>cur_ps_stats_process_\<close>, so GetOrCreateStatsProcess keeps returning the first
  entry it created. Whatever the seen pids and their fds, the packet the loop leaves
  open holds at most one process entry, and every fd the loop records in the cache, for
  any pid, is in that entry.
\<close>

theorem write_all_processes_fd_misattributed:
  "length (open_stats_processes (write_all_fds env (finalize_cur_packet s))) \<le> 1
   \<and> (\<forall>pid. seen_fds (cached_of pid (write_all_fds env (finalize_cur_packet s)))
        \<subseteq> seen_fds (cached_of pid s) \<union> fd_num ` set (stats_fds (write_all_fds env (finalize_cur_packet s))))"
proof -
  have "fds_in_entry (finalize_cur_packet s) (write_all_fds env (finalize_cur_packet s))"
    unfolding write_all_fds_def by (rule fold_write_fds_entry [OF finalize_fds_in_entry])
  then show ?thesis
    by (auto simp: fds_in_entry_def dest: one_stats_entry_length)
qed

text \<open>On \<open>example_procfs\<close>, the fds of pids 1 and 2 are both filed under pid 1.\<close>

lemma write_all_processes_fd_example:
  "(case write_all_processes example_procfs 4 (new_data_source example_config 1) of
      Inl e \<Rightarrow> []
    | Inr s \<Rightarrow> map (\<lambda>p. (sp_pid p, map fd_path (sp_fds p)))
                 (concat (map field_processes (concat (map pkt_fields (written s))))))
   = [(1, [''/dev/null'', ''/data/log''])]"
  unfolding example_procfs_def example_config_def by code_simp

subsection \<open>The frame of the dumps\<close>

text \<open>The dumps also write the seen pids and the tid map, and the poll the skip list;
  \<open>cfg_frame\<close> forgets them too, and keeps the configuration and the tick counter.\<close>

definition cfg_frame :: "ds_state \<Rightarrow> ds_state" where
  "cfg_frame s = (ds_frame s)\<lparr>seen_pids := {}, tids_to_pids := Map.empty, skip_stats_for_pids := []\<rparr>"

lemma cfg_frame_fields [simp]:
  "poll_period_ms (cfg_frame s) = poll_period_ms s"
  "process_stats_cache_ttl_ticks (cfg_frame s) = process_stats_cache_ttl_ticks s"
  "cache_ticks (cfg_frame s) = cache_ticks s"
  "record_thread_names (cfg_frame s) = record_thread_names s"
  "resolve_process_fds (cfg_frame s) = resolve_process_fds s"
  "enable_on_demand_dumps (cfg_frame s) = enable_on_demand_dumps s"
  by (simp_all add: cfg_frame_def)

lemma cfg_frame_ids [simp]:
  "cfg_frame (s\<lparr>seen_pids := P, tids_to_pids := m\<rparr>) = cfg_frame s"
  "cfg_frame (s\<lparr>skip_stats_for_pids := k\<rparr>) = cfg_frame s"
  by (simp_all add: cfg_frame_def ds_frame_def)

lemma cfg_frame_cong: "ds_frame s' = ds_frame s \<Longrightarrow> cfg_frame s' = cfg_frame s"
  by (simp add: cfg_frame_def)

text \<open>What WriteProcess and WriteThread do to the state, once they succeed.\<close>

lemma write_process_Inr:
  "write_process env tlen pid st s = Inr s' \<Longrightarrow>
   \<exists>p. s' = (add_tree_process p s)\<lparr>seen_pids := insert pid (seen_pids s),
                                     tids_to_pids := map_emplace (tids_to_pids s) pid pid\<rparr>"
  using ds_frame_eqD [OF frame_edits(1)]
  by (auto simp: write_process_def Let_def bind_sum_eq_Inr)

lemma write_thread_Inr:
  "write_thread tlen tid tgid n st s = Inr s' \<Longrightarrow>
   \<exists>th. s' = (add_tree_thread th s)\<lparr>seen_pids := insert tid (seen_pids s),
                                      tids_to_pids := map_emplace (tids_to_pids s) tid tgid\<rparr>"
  using ds_frame_eqD [OF frame_edits(2)]
  by (auto simp: write_thread_def Let_def bind_sum_eq_Inr)

lemma cfg_frame_dump:
  "write_process env tlen pid st s = Inr s' \<Longrightarrow> cfg_frame s' = cfg_frame s"
  "write_thread tlen tid tgid n st s = Inr s' \<Longrightarrow> cfg_frame s' = cfg_frame s"
proof -
  assume "write_process env tlen pid st s = Inr s'"
  then obtain p where s': "s' = (add_tree_process p s)\<lparr>seen_pids := insert pid (seen_pids s),
                                     tids_to_pids := map_emplace (tids_to_pids s) pid pid\<rparr>"
    by (blast dest: write_process_Inr)
  have "cfg_frame s' = cfg_frame (add_tree_process p s)" by (simp only: s' cfg_frame_ids)
  also have "\<dots> = cfg_frame s" by (rule cfg_frame_cong) (rule frame_edits)
  finally show "cfg_frame s' = cfg_frame s" .
next
  assume "write_thread tlen tid tgid n st s = Inr s'"
  then obtain th where s': "s' = (add_tree_thread th s)\<lparr>seen_pids := insert tid (seen_pids s),
                                      tids_to_pids := map_emplace (tids_to_pids s) tid tgid\<rparr>"
    by (blast dest: write_thread_Inr)
  have "cfg_frame s' = cfg_frame (add_tree_thread th s)" by (simp only: s' cfg_frame_ids)
  also have "\<dots> = cfg_frame s" by (rule cfg_frame_cong) (rule frame_edits)
  finally show "cfg_frame s' = cfg_frame s" .
qed

lemma cfg_frame_write_process_or_thread:
  "write_process_or_thread env tlen pid s = Inr s' \<Longrightarrow> cfg_frame s' = cfg_frame s"
  by (rule write_process_or_thread_preserves [where P = "\<lambda>x. cfg_frame x = cfg_frame s"])
     (auto dest: cfg_frame_dump intro: trans [OF cfg_frame_cong [OF frame_builder(2)]])

lemma cfg_frame_write_process_tree:
  "write_process_tree env tlen pids s = Inr s' \<Longrightarrow> cfg_frame s' = cfg_frame s"
  by (rule write_process_tree_preserves [where P = "\<lambda>x. cfg_frame x = cfg_frame s"])
     (auto dest: cfg_frame_write_process_or_thread intro: trans [OF cfg_frame_cong [OF frame_builder(8)]])

subsection \<open>Seen pids are mapped\<close>

text \<open>Every pid the data source has seen has an entry in the tid map:
  \<^verbatim>\<open>WriteProcess\<close> and \<^verbatim>\<open>WriteThread\<close> insert into both, and the other
  operations leave both alone, clear both, or only forget seen pids.\<close>

definition ids_wf :: "ds_state \<Rightarrow> bool" where
  "ids_wf s \<longleftrightarrow> seen_pids s \<subseteq> dom (tids_to_pids s)"

lemma ids_wf_frame: "ds_frame s' = ds_frame s \<Longrightarrow> ids_wf s' = ids_wf s"
proof -
  assume "ds_frame s' = ds_frame s"
  from ds_frame_eqD(4,5) [OF this] show ?thesis by (simp add: ids_wf_def)
qed

lemma ids_wf_record:
  "ids_wf s \<Longrightarrow> ids_wf (s'\<lparr>seen_pids := insert k (seen_pids s), tids_to_pids := map_emplace (tids_to_pids s) k v\<rparr>)"
  by (auto simp: ids_wf_def)

lemma ids_wf_dump:
  "ids_wf s \<Longrightarrow> write_process env tlen pid st s = Inr s' \<Longrightarrow> ids_wf s'"
  "ids_wf s \<Longrightarrow> write_thread tlen tid tgid n st s = Inr s' \<Longrightarrow> ids_wf s'"
proof -
  assume wf: "ids_wf s" and r: "write_process env tlen pid st s = Inr s'"
  from write_process_Inr [OF r] obtain p where
    "s' = (add_tree_process p s)\<lparr>seen_pids := insert pid (seen_pids s),
                                    tids_to_pids := map_emplace (tids_to_pids s) pid pid\<rparr>" ..
  with ids_wf_record [OF wf] show "ids_wf s'" by simp
next
  assume wf: "ids_wf s" and r: "write_thread tlen tid tgid n st s = Inr s'"
  from write_thread_Inr [OF r] obtain th where
    "s' = (add_tree_thread th s)\<lparr>seen_pids := insert tid (seen_pids s),
                                   tids_to_pids := map_emplace (tids_to_pids s) tid tgid\<rparr>" ..
  with ids_wf_record [OF wf] show "ids_wf s'" by simp
qed

lemma ids_wf_write_process_or_thread:
  "ids_wf s \<Longrightarrow> write_process_or_thread env tlen pid s = Inr s' \<Longrightarrow> ids_wf s'"
  by (rule write_process_or_thread_preserves [where P = ids_wf, OF _ ids_wf_dump(1) ids_wf_dump(2)])
     (simp_all add: ids_wf_frame [OF frame_builder(2)])

lemma ids_wf_write_process_tree:
  "ids_wf s \<Longrightarrow> write_process_tree env tlen pids s = Inr s' \<Longrightarrow> ids_wf s'"
  by (rule write_process_tree_preserves [where P = ids_wf, OF ids_wf_write_process_or_thread])
     (simp_all add: ids_wf_frame [OF frame_builder(8)])

subsection \<open>The scan covers /proc\<close>

function numeric_dirs :: "dirent list \<Rightarrow> int list" where
  "numeric_dirs es =
     (let r = read_next_numeric_dir es
      in if fst r = 0 then [] else fst r # numeric_dirs (snd r))"
  by pat_completeness auto
termination
  by (relation "measure length") (auto simp: read_next_numeric_dir_shorter)

declare numeric_dirs.simps [simp del]

definition dumpable :: "procfs \<Rightarrow> int \<Rightarrow> bool" where
  "dumpable env pid \<longleftrightarrow>
     (let st = read_proc_pid_file env pid ''status''
      in st \<noteq> [] \<and> 0 < to_int (read_proc_status_entry st ''Tgid:'') \<and> 0 < to_int (read_proc_status_entry st ''Pid:''))"

lemma seen_dump:
  "write_process env tlen pid st s = Inr s' \<Longrightarrow> seen_pids s' = insert pid (seen_pids s)"
  "write_thread tlen tid tgid n st s = Inr s' \<Longrightarrow> seen_pids s' = insert tid (seen_pids s)"
  by (auto dest!: write_process_Inr write_thread_Inr)

lemma seen_cache [simp]: "seen_pids (snd (cache_procfs_scan_start_timestamp s)) = seen_pids s"
  using ds_frame_eqD(4) [OF frame_builder(2)] .

lemma seen_write_process_or_thread:
  assumes r: "write_process_or_thread env tlen pid s = Inr s'"
  shows "seen_pids s \<subseteq> seen_pids s' \<and> (dumpable env pid \<longrightarrow> pid \<in> seen_pids s')"
proof
  show "seen_pids s \<subseteq> seen_pids s'"
    by (rule write_process_or_thread_preserves [where P = "\<lambda>x. seen_pids s \<subseteq> seen_pids x", OF _ _ _ _ r])
       (auto dest: seen_dump)
next
  define s0 where "s0 = snd (cache_procfs_scan_start_timestamp s)"
  define st where "st = read_proc_pid_file env pid ''status''"
  define tgid where "tgid = to_int (read_proc_status_entry st ''Tgid:'')"
  define tid where "tid = to_int (read_proc_status_entry st ''Pid:'')"
  define first where "first = (if tgid \<notin> seen_pids s0
                               then write_process env tlen tgid
                                      (if tgid = tid then st else read_proc_pid_file env tgid ''status'') s0
                               else Inr s0)"
  define name :: "ds_state \<Rightarrow> char list" where "name = (\<lambda>s1. if record_thread_names s1 then read_proc_status_entry st ''Name:'' else [])"
  have eq: "write_process_or_thread env tlen pid s =
      (if st = [] then Inr s0 else if tgid \<le> 0 \<or> tid \<le> 0 then Inr s0
       else bind_sum first (\<lambda>s1. if pid \<noteq> tgid
              then write_thread tlen pid tgid (if name s1 = [] then None else Some (cstr (name s1))) st s1
              else Inr s1))"
    by (simp only: write_process_or_thread_def Let_def s0_def st_def tgid_def tid_def first_def name_def)
  show "dumpable env pid \<longrightarrow> pid \<in> seen_pids s'"
  proof
    assume "dumpable env pid"
    then have ok: "st \<noteq> []" "\<not> tgid \<le> 0" "\<not> tid \<le> 0"
      by (simp_all add: dumpable_def st_def tgid_def tid_def Let_def)
    with r eq obtain s1 where s1: "first = Inr s1"
      and rest: "(if pid \<noteq> tgid
                  then write_thread tlen pid tgid (if name s1 = [] then None else Some (cstr (name s1))) st s1
                  else Inr s1) = Inr s'"
      by (auto simp: bind_sum_eq_Inr)
    show "pid \<in> seen_pids s'"
    proof (cases "pid = tgid")
      case True
      with rest have "s' = s1" by simp
      moreover from s1 have "tgid \<in> seen_pids s1"
        by (auto simp: first_def split: if_splits dest: seen_dump)
      ultimately show ?thesis using True by simp
    next
      case False
      with rest show ?thesis by (auto dest: seen_dump)
    qed
  qed
qed

lemma record_thread_names_write_process_or_thread:
  "write_process_or_thread env tlen pid s = Inr s' \<Longrightarrow> record_thread_names s' = record_thread_names s"
  using arg_cong [OF cfg_frame_write_process_or_thread, of _ _ _ _ _ record_thread_names] by simp

lemma record_thread_names_write_thread:
  "write_thread tlen tid tgid n st s = Inr s' \<Longrightarrow> record_thread_names s' = record_thread_names s"
  using arg_cong [OF cfg_frame_dump(2), of _ _ _ _ _ _ _ record_thread_names] by simp

lemma scan_tasks_seen:
  "scan_tasks env tlen pid ts s = Inr s' \<Longrightarrow>
     seen_pids s \<subseteq> seen_pids s' \<and> record_thread_names s' = record_thread_names s
     \<and> (\<forall>tid \<in> set (numeric_dirs ts). tid \<noteq> pid \<longrightarrow> (record_thread_names s \<longrightarrow> dumpable env tid) \<longrightarrow>
          tid \<in> seen_pids s')"
proof (induction env tlen pid ts s rule: scan_tasks.induct)
  case (1 env tlen pid ts s)
  let ?r = "read_next_numeric_dir ts"
  show ?case
  proof (cases "fst ?r = 0")
    case True
    with "1.prems" show ?thesis
      by (simp add: scan_tasks.simps [of env tlen pid ts s] numeric_dirs.simps [of ts])
  next
    case nz: False
    then have nd: "numeric_dirs ts = fst ?r # numeric_dirs (snd ?r)"
      by (simp add: numeric_dirs.simps [of ts] Let_def)
    show ?thesis
    proof (cases "fst ?r = pid")
      case True
      with nz "1.prems" "1.IH"(1) [OF refl refl nz True] show ?thesis
        by (simp add: scan_tasks.simps [of env tlen pid ts s] nd)
    next
      case False
      with nz "1.prems" obtain a where
        a: "(if record_thread_names s then write_process_or_thread env tlen (fst ?r) s
             else write_thread tlen (fst ?r) pid None (read_proc_pid_file env (fst ?r) ''status'') s) = Inr a"
        and rest: "scan_tasks env tlen pid (snd ?r) a = Inr s'"
        by (auto simp: scan_tasks.simps [of env tlen pid ts s] Let_def bind_sum_eq_Inr)
      from a have step: "seen_pids s \<subseteq> seen_pids a \<and> record_thread_names a = record_thread_names s
          \<and> ((record_thread_names s \<longrightarrow> dumpable env (fst ?r)) \<longrightarrow> fst ?r \<in> seen_pids a)"
        by (auto split: if_splits dest: seen_write_process_or_thread seen_dump(2)
                 record_thread_names_write_process_or_thread record_thread_names_write_thread)
      from "1.IH"(2) [OF refl refl nz False rest] step show ?thesis
        by (auto simp: nd)
    qed
  qed
qed

lemma scan_procs_seen:
  "scan_procs env tlen es s = Inr s' \<Longrightarrow>
     seen_pids s \<subseteq> seen_pids s' \<and> record_thread_names s' = record_thread_names s
     \<and> (\<forall>pid \<in> set (numeric_dirs es).
          (dumpable env pid \<longrightarrow> pid \<in> seen_pids s')
          \<and> (\<forall>ts tid. pf_task env pid = Some ts \<longrightarrow> tid \<in> set (numeric_dirs ts) \<longrightarrow> tid \<noteq> pid \<longrightarrow>
               (record_thread_names s \<longrightarrow> dumpable env tid) \<longrightarrow> tid \<in> seen_pids s'))"
proof (induction env tlen es s rule: scan_procs.induct)
  case (1 env tlen es s)
  let ?r = "read_next_numeric_dir es"
  show ?case
  proof (cases "fst ?r = 0")
    case True
    with "1.prems" show ?thesis
      by (simp add: scan_procs.simps [of env tlen es s] numeric_dirs.simps [of es])
  next
    case nz: False
    then have nd: "numeric_dirs es = fst ?r # numeric_dirs (snd ?r)"
      by (simp add: numeric_dirs.simps [of es] Let_def)
    from nz "1.prems" obtain a where a: "write_process_or_thread env tlen (fst ?r) s = Inr a"
      and rest: "(case pf_task env (fst ?r) of
                    None \<Rightarrow> scan_procs env tlen (snd ?r) a
                  | Some ts \<Rightarrow> bind_sum (scan_tasks env tlen (fst ?r) ts a) (scan_procs env tlen (snd ?r)))
                 = Inr s'"
      by (auto simp: scan_procs.simps [of env tlen es s] Let_def bind_sum_eq_Inr)
    note sa = seen_write_process_or_thread [OF a] and ra = record_thread_names_write_process_or_thread [OF a]
    show ?thesis
    proof (cases "pf_task env (fst ?r)")
      case None
      with rest have rest1: "scan_procs env tlen (snd ?r) a = Inr s'" by simp
      from "1.IH"(1) [OF refl refl nz None rest1] sa ra None show ?thesis
        by (auto simp: nd)
    next
      case (Some ts)
      with rest obtain b where b: "scan_tasks env tlen (fst ?r) ts a = Inr b"
        and rest2: "scan_procs env tlen (snd ?r) b = Inr s'"
        by (auto simp: bind_sum_eq_Inr)
      note sb = scan_tasks_seen [OF b]
      from "1.IH"(2) [OF refl refl nz Some rest2] sa ra sb Some show ?thesis
        by (auto simp: nd)
    qed
  qed
qed

text \<open>
  C25. WriteAllProcesses dumps every live process and thread of \<^verbatim>\<open>/proc\<close>: after
  it returns, each numeric entry of \<^verbatim>\<open>/proc\<close> that is a process whose status file
  has a positive \<^verbatim>\<open>Tgid:\<close> and \<^verbatim>\<open>Pid:\<close> is a seen pid, and so is each other numeric
  entry of its \<^verbatim>\<open>task\<close> directory (when thread names are recorded, if its own
  status file is readable in the same way).
\<close>

theorem write_all_processes_covers_proc:
  assumes proc: "pf_proc env = Some es" and r: "write_all_processes env tlen s = Inr s'"
    and pid: "pid \<in> set (numeric_dirs es)"
  shows "(dumpable env pid \<longrightarrow> pid \<in> seen_pids s')
         \<and> (\<forall>ts tid. pf_task env pid = Some ts \<longrightarrow> tid \<in> set (numeric_dirs ts) \<longrightarrow> tid \<noteq> pid \<longrightarrow>
              (record_thread_names s \<longrightarrow> dumpable env tid) \<longrightarrow> tid \<in> seen_pids s')"
proof -
  let ?s0 = "snd (cache_procfs_scan_start_timestamp s)"
  from r proc obtain s1 where sc: "scan_procs env tlen es ?s0 = Inr s1"
    and s': "s' = finalize_cur_packet (write_all_fds env (finalize_cur_packet s1))"
    by (auto simp: write_all_processes_def Let_def bind_sum_eq_Inr)
  have "ds_frame s' = ds_frame s1"
    by (simp add: s' frame_builder(8) frame_write_all_fds)
  then have seen: "seen_pids s' = seen_pids s1" by (rule ds_frame_eqD(4))
  have "record_thread_names ?s0 = record_thread_names s"
    by (rule ds_frame_eqD(6) [OF frame_builder(2)])
  with scan_procs_seen [OF sc] pid show ?thesis
    by (simp add: seen)
qed

theorem write_all_processes_covers_proc_witness:
  "\<exists>s'. write_all_processes example_procfs 4 (new_data_source example_config 1) = Inr s'
     \<and> 1 \<in> seen_pids s' \<and> 2 \<in> seen_pids s' \<and> 3 \<in> seen_pids s'"
proof -
  have "case write_all_processes example_procfs 4 (new_data_source example_config 1) of
          Inl e \<Rightarrow> False | Inr s \<Rightarrow> True"
    unfolding example_procfs_def example_config_def by code_simp
  then obtain s' where r: "write_all_processes example_procfs 4 (new_data_source example_config 1) = Inr s'"
    by (auto split: sum.splits)
  have es: "pf_proc example_procfs = Some (the (pf_proc example_procfs))"
    by (simp add: example_procfs_def)
  have d: "numeric_dirs (the (pf_proc example_procfs)) = [1, 2]"
    "pf_task example_procfs 2 = Some [\<lparr>d_name = ''2'', d_type = DT_DIR\<rparr>, \<lparr>d_name = ''3'', d_type = DT_DIR\<rparr>]"
    "numeric_dirs [\<lparr>d_name = ''2'', d_type = DT_DIR\<rparr>, \<lparr>d_name = ''3'', d_type = DT_DIR\<rparr>] = [2, 3]"
    "dumpable example_procfs 1" "dumpable example_procfs 2" "dumpable example_procfs 3"
    unfolding example_procfs_def dumpable_def read_proc_pid_file_def by code_simp+
  have "record_thread_names (new_data_source example_config 1)"
    by (simp add: new_data_source_def example_config_def Let_def)
  moreover note write_all_processes_covers_proc [OF es r, where pid = 1]
    write_all_processes_covers_proc [OF es r, where pid = 2]
  ultimately show ?thesis
    using d r by auto
qed

end
