(* ===== verification/Poller.thy ===== *)
theory Poller
  imports ProcessDump
begin

text \<open>
  The periodic poll of \<^verbatim>\<open>ProcessStatsDataSource\<close>: \<^verbatim>\<open>WriteAllProcessStats\<close>, the
  whole of \<^verbatim>\<open>Tick\<close> and \<^verbatim>\<open>Start\<close>. The \<^verbatim>\<open>/proc\<close> loop is \<open>stats_scan\<close>; it
  collects the pids it wrote stats for, as the \<^verbatim>\<open>FlatSet\<close> \<^verbatim>\<open>pids\<close> does, and the
  poll ends by dumping the process tree of the new ones. \<^verbatim>\<open>skip_stats_for_pids_\<close>
  (a \<^verbatim>\<open>std::vector<bool>\<close>) is indexed by the pid cast to \<^verbatim>\<open>uint32_t\<close>.
\<close>

subsection \<open>WriteAllProcessStats\<close>

definition pid_index :: "int \<Rightarrow> nat" where
  "pid_index pid = unat (word_of_int pid :: u32)"

text \<open>\<^verbatim>\<open>skip_stats_for_pids_[pid_u] = true\<close>, after growing the vector with
  \<^verbatim>\<open>false\<close> entries to \<open>pid_u + 1\<close> when it is shorter.\<close>

definition mark_skip :: "nat \<Rightarrow> bool list \<Rightarrow> bool list" where
  "mark_skip i xs = (if length xs \<le> i then xs @ replicate (Suc i - length xs) False else xs)[i := True]"

definition skipped :: "nat \<Rightarrow> bool list \<Rightarrow> bool" where
  "skipped i xs \<longleftrightarrow> i < length xs \<and> xs ! i"

definition write_oom_score_adj :: "procfs \<Rightarrow> int \<Rightarrow> ds_state \<Rightarrow> ds_state" where
  "write_oom_score_adj env pid s =
     (let oom = read_proc_pid_file env pid ''oom_score_adj''
      in if oom = [] then s
         else let s1 = cache_touch pid s;
                  c = cached_of pid s1;
                  counter = to_int oom
              in if counter \<noteq> oom_score_adj c
                 then set_cached pid (c\<lparr>oom_score_adj := counter\<rparr>)
                        (set_stats_counter pid OomScoreAdj counter s1)
                 else s1)"

text \<open>One pid of the loop: \<open>None\<close> when it is skipped (\<^verbatim>\<open>continue\<close>) without
  joining \<^verbatim>\<open>pids\<close>, \<open>Some\<close> when its stats were written.\<close>

definition stats_for_pid :: "procfs \<Rightarrow> int \<Rightarrow> ds_state \<Rightarrow> ds_state \<times> bool" where
  "stats_for_pid env pid s =
     (let s1 = s\<lparr>cur_ps_stats_process := False\<rparr>;
          i = pid_index pid
      in if skipped i (skip_stats_for_pids s1) then (s1, False)
         else
           let proc_status = read_proc_pid_file env pid ''status''
           in if proc_status = [] then (s1, False)
              else
                let (ok, s2) = write_mem_counters pid proc_status s1
                in if \<not> ok then (s2\<lparr>skip_stats_for_pids := mark_skip i (skip_stats_for_pids s2)\<rparr>, False)
                   else (write_fds env pid (write_oom_score_adj env pid s2), True))"

function stats_scan :: "procfs \<Rightarrow> dirent list \<Rightarrow> ds_state \<Rightarrow> int set \<Rightarrow> ds_state \<times> int set" where
  "stats_scan env es s pids =
     (let r = read_next_numeric_dir es; pid = fst r
      in if pid = 0 then (s, pids)
         else let (s1, written_stats) = stats_for_pid env pid s
              in stats_scan env (snd r) s1 (if written_stats then insert pid pids else pids))"
  by pat_completeness auto
termination
  by (relation "measure (\<lambda>(env, es, s, pids). length es)")
     (auto simp: read_next_numeric_dir_shorter)

declare stats_scan.simps [simp del]

definition write_all_process_stats :: "procfs \<Rightarrow> nat \<Rightarrow> ds_state \<Rightarrow> nstid_error + ds_state" where
  "write_all_process_stats env tlen s =
     (let s0 = snd (cache_procfs_scan_start_timestamp s)
      in case pf_proc env of
           None \<Rightarrow> Inr s0
         | Some es \<Rightarrow>
             let (s1, pids) = stats_scan env es s0 {}
             in write_process_tree env tlen (sorted_list_of_set pids) (finalize_cur_packet s1))"

subsection \<open>Tick and Start\<close>

text \<open>\<^verbatim>\<open>Tick\<close> at wall-clock time \<open>now_ms\<close>: the delay it re-posts itself with, and
  the state after the poll and the cache expiry.\<close>

definition tick :: "procfs \<Rightarrow> nat \<Rightarrow> int \<Rightarrow> ds_state \<Rightarrow> nstid_error + (u32 \<times> ds_state)" where
  "tick env tlen now_ms s =
     (let delay = tick_delay (poll_period_ms s) now_ms
      in bind_sum (write_all_process_stats env tlen s) (\<lambda>s1. Inr (delay, tick_cache s1)))"

text \<open>\<^verbatim>\<open>Start\<close>: the initial dump, and whether the first Tick is posted.\<close>

definition start :: "procfs \<Rightarrow> nat \<Rightarrow> ds_state \<Rightarrow> nstid_error + (bool \<times> ds_state)" where
  "start env tlen s =
     bind_sum (if dump_all_procs_on_start s then write_all_processes env tlen s else Inr s)
       (\<lambda>s1. Inr (poll_period_ms s1 \<noteq> 0, s1))"

subsection \<open>Frames of the poll\<close>

lemma frame_oom [frame_simps]: "ds_frame (write_oom_score_adj env pid s) = ds_frame s"
  by (simp add: write_oom_score_adj_def Let_def frame_cache frame_edits)

text \<open>The statistics written for one pid keep the frame, except for the skip list
  when the pid turns out to be a kernel thread.\<close>

lemma ds_frame_skip: "ds_frame (s\<lparr>skip_stats_for_pids := k\<rparr>) = (ds_frame s)\<lparr>skip_stats_for_pids := k\<rparr>"
  by (simp add: ds_frame_def)

lemma skip_write_mem_counters:
  "skip_stats_for_pids (snd (write_mem_counters pid st s)) = skip_stats_for_pids s"
  by (rule ds_frame_eqD(9) [OF frame_write_mem_counters])

lemma stats_for_pid_cases:
  "ds_frame (fst (stats_for_pid env pid s)) = ds_frame s
   \<or> ds_frame (fst (stats_for_pid env pid s)) =
        (ds_frame s)\<lparr>skip_stats_for_pids := mark_skip (pid_index pid) (skip_stats_for_pids s)\<rparr>"
  by (auto simp: stats_for_pid_def Let_def case_prod_beta frame_fds frame_oom frame_write_mem_counters
      ds_frame_skip skip_write_mem_counters)

lemma cfg_frame_stats_for_pid: "cfg_frame (fst (stats_for_pid env pid s)) = cfg_frame s"
  using stats_for_pid_cases [of env pid s] unfolding cfg_frame_def by auto

lemma cfg_frame_stats_scan: "cfg_frame (fst (stats_scan env es s pids)) = cfg_frame s"
proof (induction env es s pids rule: stats_scan.induct)
  case (1 env es s pids)
  then show ?case
    by (subst stats_scan.simps) (simp add: Let_def case_prod_beta cfg_frame_stats_for_pid)
qed

lemma cfg_frame_write_all_process_stats:
  assumes "write_all_process_stats env tlen s = Inr s'"
  shows "cfg_frame s' = cfg_frame s"
proof -
  define s0 where "s0 = snd (cache_procfs_scan_start_timestamp s)"
  have f0: "cfg_frame s0 = cfg_frame s"
    unfolding s0_def by (rule cfg_frame_cong) (rule frame_builder)
  show ?thesis
  proof (cases "pf_proc env")
    case None
    with assms f0 show ?thesis by (simp add: write_all_process_stats_def s0_def)
  next
    case (Some es)
    let ?s1 = "fst (stats_scan env es s0 {})"
    from assms Some have "write_process_tree env tlen (sorted_list_of_set (snd (stats_scan env es s0 {})))
        (finalize_cur_packet ?s1) = Inr s'"
      by (simp add: write_all_process_stats_def s0_def [symmetric] Let_def case_prod_beta)
    then have "cfg_frame s' = cfg_frame (finalize_cur_packet ?s1)"
      by (rule cfg_frame_write_process_tree)
    also have "\<dots> = cfg_frame ?s1"
      by (rule cfg_frame_cong) (rule frame_builder)
    also have "\<dots> = cfg_frame s0" by (rule cfg_frame_stats_scan)
    finally show ?thesis using f0 by simp
  qed
qed

subsection \<open>The skip list\<close>

lemma skipped_mark_skip: "skipped j (mark_skip i xs) \<longleftrightarrow> j = i \<or> skipped j xs"
  by (auto simp: skipped_def mark_skip_def nth_list_update nth_append)

lemma stats_for_pid_skip:
  "skip_stats_for_pids (fst (stats_for_pid env pid s)) = skip_stats_for_pids s
   \<or> skip_stats_for_pids (fst (stats_for_pid env pid s)) = mark_skip (pid_index pid) (skip_stats_for_pids s)"
  using stats_for_pid_cases [of env pid s]
proof
  assume "ds_frame (fst (stats_for_pid env pid s)) = ds_frame s"
  from arg_cong [OF this, of skip_stats_for_pids] show ?thesis by simp
next
  assume "ds_frame (fst (stats_for_pid env pid s)) =
        (ds_frame s)\<lparr>skip_stats_for_pids := mark_skip (pid_index pid) (skip_stats_for_pids s)\<rparr>"
  from arg_cong [OF this, of skip_stats_for_pids] show ?thesis by simp
qed

lemma stats_for_pid_skip_mono:
  "skipped j (skip_stats_for_pids s) \<Longrightarrow> skipped j (skip_stats_for_pids (fst (stats_for_pid env pid s)))"
  using stats_for_pid_skip [of env pid s] by (auto simp: skipped_mark_skip)

lemma stats_scan_skip_mono:
  "skipped j (skip_stats_for_pids s) \<Longrightarrow> skipped j (skip_stats_for_pids (fst (stats_scan env es s pids)))"
proof (induction env es s pids rule: stats_scan.induct)
  case (1 env es s pids)
  let ?r = "read_next_numeric_dir es"
  show ?case
  proof (cases "fst ?r = 0")
    case True
    with "1.prems" show ?thesis by (simp add: stats_scan.simps [of env es s pids])
  next
    case False
    obtain s1 w where sw: "stats_for_pid env (fst ?r) s = (s1, w)" by fastforce
    have "skipped j (skip_stats_for_pids s1)"
      using stats_for_pid_skip_mono [OF "1.prems", of env "fst ?r"] sw by simp
    with "1.IH" [OF refl refl False sw [symmetric] refl] False sw show ?thesis
      by (simp add: stats_scan.simps [of env es s pids] Let_def)
  qed
qed

lemma no_vmsize_result:
  assumes "proc_status = status_text ls @ tail" "\<forall>l \<in> set ls. CHR 0x0A \<notin> set l" "CHR 0x0A \<notin> set tail"
    and "\<forall>l \<in> set ls. cstr (takeWhile (\<lambda>c. c \<noteq> CHR '':'') l) \<noteq> ''VmSize''"
  shows "\<not> fst (write_mem_counters pid proc_status s)"
  using write_mem_counters_fold [OF assms(2,3), of pid s] assms(1,4)
  by (simp add: mem_lines_has mc_init_def)

subsection \<open>Properties of the poll\<close>

text \<open>
  C31. A pid whose status file reports no memory counters (a kernel thread: no
  \<^verbatim>\<open>VmSize\<close> line) is marked in the skip list by WriteAllProcessStats, and joins no
  process-tree dump.
\<close>

theorem stats_for_pid_marks_kernel_thread:
  assumes "\<not> skipped (pid_index pid) (skip_stats_for_pids s)"
    and "read_proc_pid_file env pid ''status'' = status_text ls @ tail" "status_text ls @ tail \<noteq> []"
    and "\<forall>l \<in> set ls. CHR 0x0A \<notin> set l" "CHR 0x0A \<notin> set tail"
    and "\<forall>l \<in> set ls. cstr (takeWhile (\<lambda>c. c \<noteq> CHR '':'') l) \<noteq> ''VmSize''"
  shows "skipped (pid_index pid) (skip_stats_for_pids (fst (stats_for_pid env pid s)))
         \<and> \<not> snd (stats_for_pid env pid s)"
proof -
  define s1 where "s1 = s\<lparr>cur_ps_stats_process := False\<rparr>"
  define st where "st = read_proc_pid_file env pid ''status''"
  define s2 where "s2 = snd (write_mem_counters pid st s1)"
  have nsk: "\<not> skipped (pid_index pid) (skip_stats_for_pids s1)"
    using assms(1) by (simp add: s1_def)
  have ne: "st \<noteq> []" using assms(2,3) by (simp add: st_def)
  have "\<not> fst (write_mem_counters pid st s1)"
    unfolding st_def assms(2) by (rule no_vmsize_result [OF refl assms(4-6)])
  then have wm: "write_mem_counters pid st s1 = (False, s2)"
    by (simp add: s2_def prod_eq_iff)
  have "stats_for_pid env pid s =
      (s2\<lparr>skip_stats_for_pids := mark_skip (pid_index pid) (skip_stats_for_pids s2)\<rparr>, False)"
    unfolding stats_for_pid_def Let_def s1_def [symmetric] st_def [symmetric]
    using nsk ne wm by simp
  then show ?thesis by (simp add: skipped_mark_skip)
qed

theorem stats_for_pid_marks_kernel_thread_witness:
  "skipped (pid_index 1) (skip_stats_for_pids (fst (stats_for_pid example_procfs 1 (new_data_source example_config 1))))
   \<and> \<not> snd (stats_for_pid example_procfs 1 (new_data_source example_config 1))"
proof (rule stats_for_pid_marks_kernel_thread)
  show "\<not> skipped (pid_index 1) (skip_stats_for_pids (new_data_source example_config 1))"
    by (simp add: skipped_def new_data_source_def Let_def)
  show "read_proc_pid_file example_procfs 1 ''status'' =
      status_text [''Name:'' @ [CHR 0x09] @ ''init'', ''Tgid:'' @ [CHR 0x09] @ ''1'', ''Pid:'' @ [CHR 0x09] @ ''1'',
                   ''PPid:'' @ [CHR 0x09] @ ''1'', ''Uid:'' @ [CHR 0x09] @ ''1000''] @ []"
    by (simp add: read_proc_pid_file_def example_procfs_def status_text_def)
qed (simp_all add: status_text_def cstr_def)

text \<open>
  Kernel threads stay skipped: a pid marked in the skip list is still marked after
  any later scan of WriteAllProcessStats (only ClearIncrementalState empties the list).
\<close>

theorem kernel_threads_stay_skipped:
  "skipped j (skip_stats_for_pids s) \<Longrightarrow> skipped j (skip_stats_for_pids (fst (stats_scan env es s pids)))"
  by (rule stats_scan_skip_mono)

theorem kernel_threads_stay_skipped_witness:
  "skipped 1 (skip_stats_for_pids (fst (stats_scan example_procfs (the (pf_proc example_procfs))
      ((new_data_source example_config 1)\<lparr>skip_stats_for_pids := [False, True]\<rparr>) {})))"
  by (rule kernel_threads_stay_skipped) (simp add: skipped_def)

end
