(* ===== verification/DataSourceEvents.thy ===== *)
theory DataSourceEvents
  imports Poller
begin

text \<open>
  The data source as the tracing service drives it: a datatype of its entry points
  (\<^verbatim>\<open>Start\<close>, the posted \<^verbatim>\<open>Tick\<close>, \<^verbatim>\<open>OnPids\<close>, \<^verbatim>\<open>OnRenamePids\<close>,
  \<^verbatim>\<open>OnFds\<close>, \<^verbatim>\<open>ClearIncrementalState\<close>, \<^verbatim>\<open>Flush\<close>), each carrying the procfs it
  reads, a step relation \<open>ds_step\<close> whose rules are the model's operations, and the
  states reachable from the constructor. A step that faults (\<open>Inl\<close>) has no successor:
  the daemon is gone. The invariant \<open>ds_inv\<close> collects what holds between two entry
  points.
\<close>

datatype ds_event =
    EvStart procfs
  | EvTick procfs int
  | EvOnPids procfs "int list"
  | EvOnRenamePids "int list"
  | EvOnFds procfs "(int \<times> u64 list) list"
  | EvClearIncrementalState
  | EvFlush

inductive ds_step :: "nat \<Rightarrow> ds_state \<Rightarrow> ds_event \<Rightarrow> ds_state \<Rightarrow> bool" where
  step_start: "start env tlen s = Inr (posted, s') \<Longrightarrow> ds_step tlen s (EvStart env) s'"
| step_tick: "poll_period_ms s \<noteq> 0 \<Longrightarrow> tick env tlen now_ms s = Inr (delay, s') \<Longrightarrow>
    ds_step tlen s (EvTick env now_ms) s'"
| step_on_pids: "on_pids env tlen pids s = Inr s' \<Longrightarrow> ds_step tlen s (EvOnPids env pids) s'"
| step_on_rename_pids: "ds_step tlen s (EvOnRenamePids pids) (on_rename_pids pids s)"
| step_on_fds: "ds_step tlen s (EvOnFds env fds) (on_fds env fds s)"
| step_clear: "ds_step tlen s EvClearIncrementalState (clear_incremental_state s)"
| step_flush: "ds_step tlen s EvFlush s"

inductive_cases ds_step_elims: "ds_step tlen s ev s'"

inductive ds_reachable :: "nat \<Rightarrow> process_stats_config \<Rightarrow> u64 \<Rightarrow> ds_state \<Rightarrow> bool" where
  reach_init: "ds_reachable tlen cfg clk (new_data_source cfg clk)"
| reach_step: "ds_reachable tlen cfg clk s \<Longrightarrow> ds_step tlen s ev s' \<Longrightarrow> ds_reachable tlen cfg clk s'"

subsection \<open>Between two entry points\<close>

definition quiescent :: "ds_state \<Rightarrow> bool" where
  "quiescent s \<longleftrightarrow> cur_packet s = None \<and> \<not> cur_ps_tree s \<and> \<not> cur_ps_stats s \<and> \<not> cur_ps_stats_process s"

definition ds_inv :: "ds_state \<Rightarrow> bool" where
  "ds_inv s \<longleftrightarrow> quiescent s \<and> ids_wf s
     \<and> (poll_period_ms s \<noteq> 0 \<longrightarrow> cache_ticks s < process_stats_cache_ttl_ticks s)"

lemma quiescent_finalize [simp]: "quiescent (finalize_cur_packet s)"
  using finalize_closed [of s] by (simp add: quiescent_def)

lemma quiescent_cache [simp]: "quiescent (snd (cache_procfs_scan_start_timestamp s)) = quiescent s"
  by (simp add: quiescent_def cache_procfs_scan_start_timestamp_def get_boot_time_ns_def case_prod_beta)

lemma quiescent_write_process_tree:
  "write_process_tree env tlen pids s = Inr s' \<Longrightarrow> quiescent s'"
  by (auto simp: write_process_tree_def bind_sum_eq_Inr)

lemma quiescent_write_all_processes:
  "quiescent s \<Longrightarrow> write_all_processes env tlen s = Inr s' \<Longrightarrow> quiescent s'"
  by (auto simp: write_all_processes_def write_all_fds_def Let_def bind_sum_eq_Inr split: option.splits)

lemma quiescent_write_all_process_stats:
  "quiescent s \<Longrightarrow> write_all_process_stats env tlen s = Inr s' \<Longrightarrow> quiescent s'"
  by (auto simp: write_all_process_stats_def Let_def case_prod_beta split: option.splits
      dest: quiescent_write_process_tree)

lemma quiescent_tick_cache [simp]: "quiescent (tick_cache s) = quiescent s"
  by (simp add: quiescent_def tick_cache_def Let_def)

subsection \<open>The configuration frame through the entry points\<close>

lemma cfg_frame_write_all_processes:
  assumes "write_all_processes env tlen s = Inr s'"
  shows "cfg_frame s' = cfg_frame s"
proof -
  define s0 where "s0 = snd (cache_procfs_scan_start_timestamp s)"
  have f0: "cfg_frame s0 = cfg_frame s"
    unfolding s0_def by (rule cfg_frame_cong) (rule frame_builder)
  have fds: "ds_frame (fold (write_fds env) pids x) = ds_frame x" for pids x
    by (induction pids arbitrary: x) (simp_all add: frame_fds)
  show ?thesis
  proof (cases "pf_proc env")
    case None
    with assms f0 show ?thesis by (simp add: write_all_processes_def write_all_fds_def s0_def)
  next
    case (Some es)
    with assms obtain s1 where s1: "scan_procs env tlen es s0 = Inr s1"
      and s': "s' = finalize_cur_packet (fold (write_fds env) (sorted_list_of_set (seen_pids (finalize_cur_packet s1)))
                                          (finalize_cur_packet s1))"
      by (auto simp: write_all_processes_def write_all_fds_def s0_def [symmetric] Let_def bind_sum_eq_Inr)
    have "cfg_frame s1 = cfg_frame s0"
      by (rule scan_procs_preserves [where P = "\<lambda>x. cfg_frame x = cfg_frame s0", OF _ _ _ s1])
         (auto dest: cfg_frame_write_process_or_thread cfg_frame_dump(2))
    moreover have "cfg_frame s' = cfg_frame s1"
      unfolding s' by (rule cfg_frame_cong) (simp add: fds frame_builder)
    ultimately show ?thesis using f0 by simp
  qed
qed

subsection \<open>Seen pids stay mapped through the entry points\<close>

lemma ids_wf_fold_fds: "ids_wf (fold (write_fds env) pids s) = ids_wf s"
proof (induction pids arbitrary: s)
  case (Cons pid pids)
  then show ?case using ids_wf_frame [OF frame_fds(3)] by simp
qed simp

lemma ids_wf_write_all_processes:
  assumes "ids_wf s" "write_all_processes env tlen s = Inr s'"
  shows "ids_wf s'"
proof -
  define s0 where "s0 = snd (cache_procfs_scan_start_timestamp s)"
  have w0: "ids_wf s0" using assms(1) ids_wf_frame [OF frame_builder(2)] by (simp add: s0_def)
  show ?thesis
  proof (cases "pf_proc env")
    case None
    with assms w0 show ?thesis by (simp add: write_all_processes_def write_all_fds_def s0_def)
  next
    case (Some es)
    with assms obtain s1 where s1: "scan_procs env tlen es s0 = Inr s1"
      and s': "s' = finalize_cur_packet (fold (write_fds env) (sorted_list_of_set (seen_pids (finalize_cur_packet s1)))
                                          (finalize_cur_packet s1))"
      by (auto simp: write_all_processes_def write_all_fds_def s0_def [symmetric] Let_def bind_sum_eq_Inr)
    have "ids_wf s1"
      by (rule scan_procs_preserves [where P = ids_wf, OF ids_wf_write_process_or_thread ids_wf_dump(2) w0 s1])
    then show ?thesis
      by (simp add: s' ids_wf_fold_fds ids_wf_frame [OF frame_builder(8)])
  qed
qed

lemma ids_stats_for_pid:
  "seen_pids (fst (stats_for_pid env pid s)) = seen_pids s \<and> tids_to_pids (fst (stats_for_pid env pid s)) = tids_to_pids s"
  using stats_for_pid_cases [of env pid s]
proof
  assume "ds_frame (fst (stats_for_pid env pid s)) = ds_frame s"
  from ds_frame_eqD(4,5) [OF this] show ?thesis by simp
next
  assume e: "ds_frame (fst (stats_for_pid env pid s)) =
        (ds_frame s)\<lparr>skip_stats_for_pids := mark_skip (pid_index pid) (skip_stats_for_pids s)\<rparr>"
  from arg_cong [OF e, of seen_pids] arg_cong [OF e, of tids_to_pids] show ?thesis by simp
qed

lemma ids_stats_scan:
  "seen_pids (fst (stats_scan env es s pids)) = seen_pids s \<and> tids_to_pids (fst (stats_scan env es s pids)) = tids_to_pids s"
proof (induction env es s pids rule: stats_scan.induct)
  case (1 env es s pids)
  let ?r = "read_next_numeric_dir es"
  show ?case
  proof (cases "fst ?r = 0")
    case True
    then show ?thesis by (simp add: stats_scan.simps [of env es s pids])
  next
    case False
    obtain s1 w where sw: "stats_for_pid env (fst ?r) s = (s1, w)" by fastforce
    have "seen_pids s1 = seen_pids s \<and> tids_to_pids s1 = tids_to_pids s"
      using ids_stats_for_pid [of env "fst ?r" s] sw by simp
    with "1.IH" [OF refl refl False sw [symmetric] refl] False sw show ?thesis
      by (simp add: stats_scan.simps [of env es s pids] Let_def)
  qed
qed

lemma ids_wf_write_all_process_stats:
  assumes "ids_wf s" "write_all_process_stats env tlen s = Inr s'"
  shows "ids_wf s'"
proof -
  define s0 where "s0 = snd (cache_procfs_scan_start_timestamp s)"
  have w0: "ids_wf s0" using assms(1) ids_wf_frame [OF frame_builder(2)] by (simp add: s0_def)
  show ?thesis
  proof (cases "pf_proc env")
    case None
    with assms w0 show ?thesis by (simp add: write_all_process_stats_def s0_def)
  next
    case (Some es)
    let ?s1 = "fst (stats_scan env es s0 {})"
    from assms Some have t: "write_process_tree env tlen (sorted_list_of_set (snd (stats_scan env es s0 {})))
        (finalize_cur_packet ?s1) = Inr s'"
      by (simp add: write_all_process_stats_def s0_def [symmetric] Let_def case_prod_beta)
    have "ids_wf ?s1" using w0 ids_stats_scan [of env es s0 "{}"] by (simp add: ids_wf_def)
    then have "ids_wf (finalize_cur_packet ?s1)" using ids_wf_frame [OF frame_builder(8)] by simp
    from ids_wf_write_process_tree [OF this t] show ?thesis .
  qed
qed

subsection \<open>The invariant of the entry points\<close>

lemma cfg_counter:
  assumes "cfg_frame s' = cfg_frame s"
  shows "(poll_period_ms s' \<noteq> 0 \<longrightarrow> cache_ticks s' < process_stats_cache_ttl_ticks s') =
         (poll_period_ms s \<noteq> 0 \<longrightarrow> cache_ticks s < process_stats_cache_ttl_ticks s)"
  using arg_cong [OF assms, of poll_period_ms] arg_cong [OF assms, of cache_ticks]
    arg_cong [OF assms, of process_stats_cache_ttl_ticks]
  by simp

lemma ds_inv_init: "ds_inv (new_data_source cfg clk)"
proof -
  have "poll_period_ms (new_data_source cfg clk) \<noteq> 0 \<longrightarrow>
        cache_ticks (new_data_source cfg clk) < process_stats_cache_ttl_ticks (new_data_source cfg clk)"
    using new_data_source_ttl [of cfg clk]
    by (auto simp: new_data_source_def Let_def word_less_nat_alt word_le_nat_alt)
  then show ?thesis
    by (simp add: ds_inv_def quiescent_def ids_wf_def new_data_source_def Let_def)
qed

lemma ds_inv_start:
  assumes "ds_inv s" "start env tlen s = Inr (posted, s')"
  shows "ds_inv s'"
proof (cases "dump_all_procs_on_start s")
  case True
  with assms(2) have w: "write_all_processes env tlen s = Inr s'"
    by (auto simp: start_def bind_sum_eq_Inr)
  from assms(1) quiescent_write_all_processes [OF _ w] ids_wf_write_all_processes [OF _ w]
    cfg_counter [OF cfg_frame_write_all_processes [OF w]]
  show ?thesis by (simp add: ds_inv_def)
next
  case False
  with assms show ?thesis by (simp add: start_def)
qed

lemma ds_inv_tick:
  assumes "ds_inv s" "tick env tlen now_ms s = Inr (delay, s')"
  shows "ds_inv s'"
proof -
  from assms(2) obtain s1 where w: "write_all_process_stats env tlen s = Inr s1" and s': "s' = tick_cache s1"
    by (auto simp: tick_def Let_def bind_sum_eq_Inr)
  have q: "quiescent s1" and i: "ids_wf s1"
    using assms(1) quiescent_write_all_process_stats [OF _ w] ids_wf_write_all_process_stats [OF _ w]
    by (simp_all add: ds_inv_def)
  have c: "poll_period_ms s1 \<noteq> 0 \<longrightarrow> cache_ticks s1 < process_stats_cache_ttl_ticks s1"
    using assms(1) cfg_counter [OF cfg_frame_write_all_process_stats [OF w]] by (simp add: ds_inv_def)
  have "poll_period_ms s1 \<noteq> 0 \<longrightarrow>
        cache_ticks (tick_cache s1) < process_stats_cache_ttl_ticks (tick_cache s1)"
  proof
    assume "poll_period_ms s1 \<noteq> 0"
    with c have lt: "cache_ticks s1 < process_stats_cache_ttl_ticks s1" by simp
    then have "1 \<le> process_stats_cache_ttl_ticks s1"
      by (simp add: word_le_nat_alt word_less_nat_alt)
    with lt show "cache_ticks (tick_cache s1) < process_stats_cache_ttl_ticks (tick_cache s1)"
      by (rule tick_cache_bound [rotated])
  qed
  moreover have "ids_wf (tick_cache s1) = ids_wf s1" "poll_period_ms (tick_cache s1) = poll_period_ms s1"
    by (simp_all add: ids_wf_def tick_cache_def Let_def)
  ultimately show ?thesis using q i by (simp add: ds_inv_def s')
qed

lemma ds_inv_on_pids:
  assumes "ds_inv s" "on_pids env tlen pids s = Inr s'"
  shows "ds_inv s'"
proof (cases "enable_on_demand_dumps s")
  case True
  with assms(2) have w: "write_process_tree env tlen pids s = Inr s'" by (simp add: on_pids_def)
  from assms(1) quiescent_write_process_tree [OF w] ids_wf_write_process_tree [OF _ w]
    cfg_counter [OF cfg_frame_write_process_tree [OF w]]
  show ?thesis by (simp add: ds_inv_def)
next
  case False
  with assms show ?thesis by (simp add: on_pids_def)
qed

lemma ds_inv_on_fds: "ds_inv s \<Longrightarrow> ds_inv (on_fds env fds s)"
proof -
  assume inv: "ds_inv s"
  have "quiescent (on_fds env fds s)"
    using inv by (simp add: on_fds_def ds_inv_def)
  moreover have "ids_wf (on_fds env fds s)"
    using inv ids_wf_frame [OF frame_fds(4)] by (simp add: ds_inv_def)
  moreover have "cfg_frame (on_fds env fds s) = cfg_frame s"
    by (rule cfg_frame_cong) (rule frame_fds(4))
  note cfg_counter [OF this]
  ultimately show ?thesis using inv by (simp add: ds_inv_def)
qed

lemma ds_inv_others:
  "ds_inv s \<Longrightarrow> ds_inv (on_rename_pids pids s)"
  "ds_inv s \<Longrightarrow> ds_inv (clear_incremental_state s)"
  by (auto simp: ds_inv_def quiescent_def ids_wf_def on_rename_pids_def clear_incremental_state_def
      word_less_nat_alt)

lemma ds_inv_step: "ds_inv s \<Longrightarrow> ds_step tlen s ev s' \<Longrightarrow> ds_inv s'"
  by (erule ds_step.cases)
     (auto intro: ds_inv_start ds_inv_tick ds_inv_on_pids ds_inv_on_fds ds_inv_others)

lemma ds_inv_reachable: "ds_reachable tlen cfg clk s \<Longrightarrow> ds_inv s"
  by (induction rule: ds_reachable.induct) (auto intro: ds_inv_init ds_inv_step)

subsection \<open>A reachable state\<close>

lemma example_on_pids_run:
  "\<exists>s. on_pids example_procfs 4 [1, 2] (new_data_source example_config 1) = Inr s \<and> written s \<noteq> []"
proof -
  have "case on_pids example_procfs 4 [1, 2] (new_data_source example_config 1) of
          Inl e \<Rightarrow> False | Inr s \<Rightarrow> written s \<noteq> []"
    unfolding example_procfs_def example_config_def by code_simp
  then show ?thesis by (auto split: sum.splits)
qed

lemma example_reachable:
  "\<exists>s. ds_reachable 4 example_config 1 s \<and> written s \<noteq> [] \<and> poll_period_ms s = 100"
proof -
  obtain s where s: "on_pids example_procfs 4 [1, 2] (new_data_source example_config 1) = Inr s"
    and w: "written s \<noteq> []"
    using example_on_pids_run by blast
  have "ds_reachable 4 example_config 1 s"
    by (rule reach_step [OF reach_init step_on_pids [OF s]])
  moreover have "enable_on_demand_dumps (new_data_source example_config 1)"
    by (simp add: new_data_source_def example_config_def Let_def)
  with s have "write_process_tree example_procfs 4 [1, 2] (new_data_source example_config 1) = Inr s"
    by (simp add: on_pids_def)
  then have "cfg_frame s = cfg_frame (new_data_source example_config 1)"
    by (rule cfg_frame_write_process_tree)
  from arg_cong [OF this, of poll_period_ms]
  have "poll_period_ms s = poll_period_ms (new_data_source example_config 1)"
    by (simp only: cfg_frame_fields)
  moreover have "poll_period_ms (new_data_source example_config 1) = 100"
    by (simp add: new_data_source_def example_config_def Let_def)
  ultimately show ?thesis using w by auto
qed

subsection \<open>Properties of the data source between entry points\<close>

text \<open>
  C27. Between two entry points the data source holds no open packet and no message
  pointer, in every state reachable from its constructor. These are the
  \<^verbatim>\<open>PERFETTO_DCHECK\<close>s at the start of \<^verbatim>\<open>Flush\<close>, \<^verbatim>\<open>WriteAllProcesses\<close>,
  \<^verbatim>\<open>WriteProcessTree\<close> and \<^verbatim>\<open>OnRenamePids\<close>: every entry point that begins a
  packet finalises it before it returns.
\<close>

theorem ds_reachable_quiescent:
  "ds_reachable tlen cfg clk s \<Longrightarrow>
   cur_packet s = None \<and> \<not> cur_ps_tree s \<and> \<not> cur_ps_stats s \<and> \<not> cur_ps_stats_process s"
  using ds_inv_reachable by (auto simp: ds_inv_def quiescent_def)

theorem ds_reachable_quiescent_witness:
  "\<exists>s. ds_reachable 4 example_config 1 s \<and> written s \<noteq> []
      \<and> cur_packet s = None \<and> \<not> cur_ps_tree s \<and> \<not> cur_ps_stats s \<and> \<not> cur_ps_stats_process s"
  using example_reachable ds_reachable_quiescent by blast

text \<open>
  C28. Every pid the data source has seen has an entry in \<^verbatim>\<open>tids_to_pids_\<close>, in
  every reachable state, so WriteSingleFd finds the process of every seen thread.
\<close>

theorem ds_reachable_seen_mapped:
  "ds_reachable tlen cfg clk s \<Longrightarrow> seen_pids s \<subseteq> dom (tids_to_pids s)"
  using ds_inv_reachable by (auto simp: ds_inv_def ids_wf_def)

theorem ds_reachable_seen_mapped_witness:
  "\<exists>s. ds_reachable 4 example_config 1 s \<and> written s \<noteq> [] \<and> seen_pids s \<subseteq> dom (tids_to_pids s)"
  using example_reachable ds_reachable_seen_mapped by blast

text \<open>
  C29. While the data source polls, its cache-tick counter is below the cache lifetime in
  every reachable state: Start, OnPids, OnFds and the poll itself leave it alone, Tick
  wraps it at the lifetime and ClearIncrementalState resets it.
\<close>

theorem ds_reachable_cache_counter:
  "ds_reachable tlen cfg clk s \<Longrightarrow> poll_period_ms s \<noteq> 0 \<Longrightarrow>
   cache_ticks s < process_stats_cache_ttl_ticks s"
  using ds_inv_reachable by (auto simp: ds_inv_def)

theorem ds_reachable_cache_counter_witness:
  "\<exists>s. ds_reachable 4 example_config 1 s \<and> written s \<noteq> [] \<and> poll_period_ms s = 100
      \<and> cache_ticks s < process_stats_cache_ttl_ticks s"
  using example_reachable ds_reachable_cache_counter by fastforce

subsection \<open>A failed scan leaves its timestamp behind\<close>

text \<open>
  C30. When \<^verbatim>\<open>opendir("/proc")\<close> fails, WriteAllProcessStats returns after
  CacheProcFsScanStartTimestamp without FinalizeCurPacket, so the scan timestamp of the
  failed Tick stays cached: the next packet the data source starts, whenever that is, is
  stamped with the clock value read by that Tick, and no new clock value is read.
\<close>

theorem failed_tick_stale_timestamp:
  assumes no_proc: "pf_proc env = None" and fresh: "cur_procfs_scan_start_timestamp s = 0"
    and clk: "boot_clock s \<noteq> 0" and closed: "cur_packet s = None"
    and step: "ds_step tlen s (EvTick env now_ms) s'"
  shows "cur_procfs_scan_start_timestamp s' = boot_clock s \<and> boot_clock s' = boot_clock s + 1 \<and>
         map_option pkt_timestamp (cur_packet (start_new_packet_if_needed s')) = Some (boot_clock s) \<and>
         boot_clock (start_new_packet_if_needed s') = boot_clock s'"
proof -
  from step obtain delay where "tick env tlen now_ms s = Inr (delay, s')"
    by (auto elim: ds_step_elims)
  then have "s' = tick_cache (s\<lparr>boot_clock := boot_clock s + 1, cur_procfs_scan_start_timestamp := boot_clock s\<rparr>)"
    using no_proc fresh
    by (simp add: tick_def write_all_process_stats_def cache_procfs_scan_start_timestamp_def
                  get_boot_time_ns_def Let_def)
  then show ?thesis
    using clk closed
    by (simp add: tick_cache_def Let_def start_new_packet_if_needed_def cache_procfs_scan_start_timestamp_def)
qed

theorem failed_tick_stale_timestamp_witness:
  "\<exists>s'. ds_step 4 (new_data_source example_config 1) (EvTick (example_procfs\<lparr>pf_proc := None\<rparr>) 0) s' \<and>
     cur_procfs_scan_start_timestamp s' = 1 \<and> boot_clock s' = 2 \<and>
     map_option pkt_timestamp (cur_packet (start_new_packet_if_needed s')) = Some 1 \<and>
     boot_clock (start_new_packet_if_needed s') = boot_clock s'"
proof -
  let ?s = "new_data_source example_config 1" and ?env = "example_procfs\<lparr>pf_proc := None\<rparr>"
  obtain d s' where t: "tick ?env 4 0 ?s = Inr (d, s')"
    by (simp add: tick_def write_all_process_stats_def Let_def)
  have "poll_period_ms ?s \<noteq> 0"
    by (simp add: new_data_source_def example_config_def Let_def)
  from step_tick [OF this t] have step: "ds_step 4 ?s (EvTick ?env 0) s'" .
  have "boot_clock ?s = 1" "cur_procfs_scan_start_timestamp ?s = 0" "cur_packet ?s = None"
    by (simp_all add: new_data_source_def Let_def)
  from failed_tick_stale_timestamp [OF _ this(2) _ this(3) step] this(1) step show ?thesis
    by auto
qed
end
