(* ===== verification/ThreadTimeline.thy ===== *)
theory ThreadTimeline
  imports Prelude
begin

text \<open>
  The \<^verbatim>\<open>ProcessThreadTimeline\<close> test suite of \<^verbatim>\<open>trace_redaction\<close>, which the
  sources carry after the \<^verbatim>\<open>SetIdStorage\<close> header (from its line 74). The class under
  test is not under \<^verbatim>\<open>src/\<close>: it is the interface \<open>'t timeline_ops\<close>, a record of
  its four operations over the type \<open>'t\<close> of its state, and each test is stated for an
  arbitrary implementation. \<open>SliceTestParams\<close>, the constants and the four
  parameterised tests with their value lists are translated from the test file.
  \<open>timeline_contract\<close> is the behaviour the tests' comments describe (the newest
  event of the pid at or before the timestamp decides; an open event without a uid
  inherits the parent's, following at most \<open>d\<close> parents), and \<open>spec_timeline\<close> is a
  reference implementation of it.
\<close>

section \<open>The interface of ProcessThreadTimeline\<close>

datatype tl_event_type = kOpen | kClose

record tl_event =
  ev_type :: tl_event_type
  ev_ts :: u64
  ev_pid :: int
  ev_ppid :: int
  ev_uid :: u64

definition event_open_uid :: "u64 \<Rightarrow> int \<Rightarrow> int \<Rightarrow> u64 \<Rightarrow> tl_event" where
  "event_open_uid ts pid ppid uid = \<lparr>ev_type = kOpen, ev_ts = ts, ev_pid = pid, ev_ppid = ppid, ev_uid = uid\<rparr>"

definition event_open :: "u64 \<Rightarrow> int \<Rightarrow> int \<Rightarrow> tl_event" where
  "event_open ts pid ppid = event_open_uid ts pid ppid 0"

definition event_close :: "u64 \<Rightarrow> int \<Rightarrow> tl_event" where
  "event_close ts pid = \<lparr>ev_type = kClose, ev_ts = ts, ev_pid = pid, ev_ppid = 0, ev_uid = 0\<rparr>"

record tl_slice =
  slice_pid :: int
  slice_uid :: u64

record 't timeline_ops =
  tl_new :: 't
  tl_append :: "tl_event \<Rightarrow> 't \<Rightarrow> 't"
  tl_sort :: "'t \<Rightarrow> 't"
  tl_search :: "'t \<Rightarrow> u64 \<Rightarrow> int \<Rightarrow> tl_slice"

text \<open>The timeline a test builds: the fixture's fresh \<^verbatim>\<open>timeline_\<close>, the appends in
  order, then \<^verbatim>\<open>Sort\<close>.\<close>

definition build_timeline :: "'t timeline_ops \<Rightarrow> tl_event list \<Rightarrow> 't" where
  "build_timeline tlo evs = tl_sort tlo (fold (tl_append tlo) evs (tl_new tlo))"

section \<open>The test parameters and constants\<close>

record slice_test_params =
  stp_ts :: u64
  stp_pid :: int
  stp_uid :: u64

definition kTimeA :: u64 where "kTimeA = 0"
definition kTimeB :: u64 where "kTimeB = 10"
definition kTimeC :: u64 where "kTimeC = 20"
definition kTimeD :: u64 where "kTimeD = 30"
definition kTimeE :: u64 where "kTimeE = 40"
definition kTimeF :: u64 where "kTimeF = 50"
definition kTimeG :: u64 where "kTimeG = 60"

definition kPidA :: int where "kPidA = 1"
definition kPidB :: int where "kPidB = 2"

definition kNoPackage :: u64 where "kNoPackage = 0"

text \<open>\<^verbatim>\<open>kUidA\<close> and \<^verbatim>\<open>kUidB\<close> are \<^verbatim>\<open>int32_t\<close>; passing one where a
  \<^verbatim>\<open>uint64_t\<close> is expected converts it modulo \<open>2^64\<close>, which is \<open>of_int\<close>.\<close>

definition kUidA :: int where "kUidA = 98"
definition kUidB :: int where "kUidB = 99"

definition SliceTestParams :: "u64 \<Rightarrow> int \<Rightarrow> u64 \<Rightarrow> slice_test_params" where
  "SliceTestParams ts pid uid = \<lparr>stp_ts = ts, stp_pid = pid, stp_uid = uid\<rparr>"

lemmas timeline_consts = kTimeA_def kTimeB_def kTimeC_def kTimeD_def kTimeE_def kTimeF_def
  kTimeG_def kPidA_def kPidB_def kNoPackage_def kUidA_def kUidB_def

section \<open>The four parameterised tests\<close>

text \<open>A test passes when both \<^verbatim>\<open>ASSERT_EQ\<close>s hold: the slice names the searched pid
  and carries the expected uid.\<close>

definition slice_matches :: "tl_slice \<Rightarrow> slice_test_params \<Rightarrow> bool" where
  "slice_matches sl params \<longleftrightarrow> slice_pid sl = stp_pid params \<and> slice_uid sl = stp_uid params"

definition pids_end_on_close :: "'t timeline_ops \<Rightarrow> slice_test_params \<Rightarrow> bool" where
  "pids_end_on_close tlo params =
     (let timeline = build_timeline tlo
            [event_open_uid kTimeB kPidB kPidA (of_int kUidA), event_close kTimeD kPidB]
      in slice_matches (tl_search tlo timeline (stp_ts params) (stp_pid params)) params)"

definition open_and_close_single_values :: "slice_test_params list" where
  "open_and_close_single_values =
     [SliceTestParams kTimeA kPidB kNoPackage,
      SliceTestParams kTimeB kPidB (of_int kUidA),
      SliceTestParams kTimeC kPidB (of_int kUidA),
      SliceTestParams kTimeD kPidB kNoPackage,
      SliceTestParams kTimeE kPidB kNoPackage]"

definition open_after_open_finds_uid :: "'t timeline_ops \<Rightarrow> slice_test_params \<Rightarrow> bool" where
  "open_after_open_finds_uid tlo params =
     (let timeline = build_timeline tlo
            [event_open_uid kTimeB kPidB kPidA (of_int kUidA),
             event_open_uid kTimeD kPidB kPidA (of_int kUidB)]
      in slice_matches (tl_search tlo timeline (stp_ts params) (stp_pid params)) params)"

definition open_after_open_values :: "slice_test_params list" where
  "open_after_open_values =
     [SliceTestParams kTimeA kPidB kNoPackage,
      SliceTestParams kTimeB kPidB (of_int kUidA),
      SliceTestParams kTimeC kPidB (of_int kUidA),
      SliceTestParams kTimeD kPidB (of_int kUidB),
      SliceTestParams kTimeE kPidB (of_int kUidB)]"

definition overlapping_ranges_finds_uid :: "'t timeline_ops \<Rightarrow> slice_test_params \<Rightarrow> bool" where
  "overlapping_ranges_finds_uid tlo params =
     (let timeline = build_timeline tlo
            [event_open_uid kTimeA kPidA 0 (of_int kUidA),
             event_open_uid kTimeC kPidB 0 (of_int kUidB),
             event_close kTimeE kPidA,
             event_close kTimeG kPidB]
      in slice_matches (tl_search tlo timeline (stp_ts params) (stp_pid params)) params)"

definition overlapping_ranges_values :: "slice_test_params list" where
  "overlapping_ranges_values =
     [SliceTestParams kTimeA kPidA (of_int kUidA),
      SliceTestParams kTimeA kPidB kNoPackage,
      SliceTestParams kTimeB kPidA (of_int kUidA),
      SliceTestParams kTimeB kPidB kNoPackage,
      SliceTestParams kTimeC kPidA (of_int kUidA),
      SliceTestParams kTimeC kPidB (of_int kUidB),
      SliceTestParams kTimeD kPidA (of_int kUidA),
      SliceTestParams kTimeD kPidB (of_int kUidB),
      SliceTestParams kTimeE kPidA kNoPackage,
      SliceTestParams kTimeE kPidB (of_int kUidB),
      SliceTestParams kTimeF kPidA kNoPackage,
      SliceTestParams kTimeF kPidB (of_int kUidB),
      SliceTestParams kTimeG kPidA kNoPackage,
      SliceTestParams kTimeG kPidB kNoPackage]"

definition parent_child_finds_uid :: "'t timeline_ops \<Rightarrow> slice_test_params \<Rightarrow> bool" where
  "parent_child_finds_uid tlo params =
     (let timeline = build_timeline tlo
            [event_open_uid kTimeA kPidA 0 (of_int kUidA),
             event_open kTimeC kPidB kPidA,
             event_close kTimeE kPidB]
      in slice_matches (tl_search tlo timeline (stp_ts params) (stp_pid params)) params)"

definition parent_child_values :: "slice_test_params list" where
  "parent_child_values =
     [SliceTestParams kTimeB kPidB kNoPackage,
      SliceTestParams kTimeC kPidB (of_int kUidA),
      SliceTestParams kTimeD kPidB (of_int kUidA),
      SliceTestParams kTimeE kPidB kNoPackage]"

text \<open>The four \<^verbatim>\<open>INSTANTIATE_TEST_SUITE_P\<close>s: every test runs once per value.\<close>

definition timeline_suite_passes :: "'t timeline_ops \<Rightarrow> bool" where
  "timeline_suite_passes tlo \<longleftrightarrow>
     list_all (pids_end_on_close tlo) open_and_close_single_values \<and>
     list_all (open_after_open_finds_uid tlo) open_after_open_values \<and>
     list_all (overlapping_ranges_finds_uid tlo) overlapping_ranges_values \<and>
     list_all (parent_child_finds_uid tlo) parent_child_values"

section \<open>The behaviour the tests describe\<close>

text \<open>The newest event of \<open>pid\<close> at or before \<open>ts\<close>; of two events with the same
  timestamp the one appended later.\<close>

definition latest_event :: "tl_event list \<Rightarrow> u64 \<Rightarrow> int \<Rightarrow> tl_event option" where
  "latest_event evs ts pid =
     fold (\<lambda>e acc. if ev_pid e = pid \<and> ev_ts e \<le> ts \<and>
                      (case acc of None \<Rightarrow> True | Some a \<Rightarrow> ev_ts a \<le> ev_ts e)
                   then Some e else acc) evs None"

fun slice_uid_at :: "nat \<Rightarrow> tl_event list \<Rightarrow> u64 \<Rightarrow> int \<Rightarrow> u64" where
  "slice_uid_at 0 evs ts pid = 0"
| "slice_uid_at (Suc d) evs ts pid =
     (case latest_event evs ts pid of
        None \<Rightarrow> 0
      | Some e \<Rightarrow> if ev_type e = kClose then 0
                  else if ev_uid e \<noteq> 0 then ev_uid e
                  else slice_uid_at d evs ts (ev_ppid e))"

definition timeline_contract :: "nat \<Rightarrow> 't timeline_ops \<Rightarrow> bool" where
  "timeline_contract d tlo \<longleftrightarrow>
     (\<forall>evs ts pid. tl_search tlo (build_timeline tlo evs) ts pid =
                    \<lparr>slice_pid = pid, slice_uid = slice_uid_at d evs ts pid\<rparr>)"

text \<open>A list of events, searched with a given uid lookup, is a timeline; with
  \<open>slice_uid_at d\<close> it is the reference implementation of the contract.\<close>

definition timeline_of :: "(tl_event list \<Rightarrow> u64 \<Rightarrow> int \<Rightarrow> u64) \<Rightarrow> tl_event list timeline_ops" where
  "timeline_of lookup = \<lparr>tl_new = [], tl_append = (\<lambda>e t. t @ [e]), tl_sort = id,
     tl_search = (\<lambda>t ts pid. \<lparr>slice_pid = pid, slice_uid = lookup t ts pid\<rparr>)\<rparr>"

definition spec_timeline :: "nat \<Rightarrow> tl_event list timeline_ops" where
  "spec_timeline d = timeline_of (slice_uid_at d)"

text \<open>A timeline that differs from the contract in one point: an open event without a
  uid takes the uid its parent had when the child opened, instead of the parent's uid at
  the searched timestamp.\<close>

fun uid_at_open :: "nat \<Rightarrow> tl_event list \<Rightarrow> u64 \<Rightarrow> int \<Rightarrow> u64" where
  "uid_at_open 0 evs ts pid = 0"
| "uid_at_open (Suc d) evs ts pid =
     (case latest_event evs ts pid of
        None \<Rightarrow> 0
      | Some e \<Rightarrow> if ev_type e = kClose then 0
                  else if ev_uid e \<noteq> 0 then ev_uid e
                  else uid_at_open d evs (ev_ts e) (ev_ppid e))"

definition parent_at_open_timeline :: "nat \<Rightarrow> tl_event list timeline_ops" where
  "parent_at_open_timeline d = timeline_of (uid_at_open d)"

lemma build_timeline_of [simp]: "build_timeline (timeline_of lookup) evs = evs"
proof -
  have "fold (\<lambda>e t. t @ [e]) evs xs = xs @ evs" for xs
    by (induction evs arbitrary: xs) auto
  then show ?thesis by (simp add: build_timeline_def timeline_of_def)
qed

lemma search_timeline_of [simp]:
  "tl_search (timeline_of lookup) t ts pid = \<lparr>slice_pid = pid, slice_uid = lookup t ts pid\<rparr>"
  by (simp add: timeline_of_def)

lemma contract_timeline_of: "timeline_contract d (timeline_of lookup) \<longleftrightarrow> lookup = slice_uid_at d"
  by (auto simp: timeline_contract_def fun_eq_iff)

lemma spec_timeline_contract: "timeline_contract d (spec_timeline d)"
  by (simp add: spec_timeline_def contract_timeline_of)

lemma contract_search:
  "timeline_contract d tlo \<Longrightarrow>
   tl_search tlo (build_timeline tlo evs) ts pid = \<lparr>slice_pid = pid, slice_uid = slice_uid_at d evs ts pid\<rparr>"
  by (simp add: timeline_contract_def)

text \<open>What a test run reduces to once the timeline meets the contract.\<close>

lemma contract_tests:
  assumes "timeline_contract d tlo"
  shows "pids_end_on_close tlo p \<longleftrightarrow> slice_uid_at d
           [event_open_uid kTimeB kPidB kPidA (of_int kUidA), event_close kTimeD kPidB] (stp_ts p) (stp_pid p) = stp_uid p"
    and "open_after_open_finds_uid tlo p \<longleftrightarrow> slice_uid_at d
           [event_open_uid kTimeB kPidB kPidA (of_int kUidA), event_open_uid kTimeD kPidB kPidA (of_int kUidB)]
           (stp_ts p) (stp_pid p) = stp_uid p"
    and "overlapping_ranges_finds_uid tlo p \<longleftrightarrow> slice_uid_at d
           [event_open_uid kTimeA kPidA 0 (of_int kUidA), event_open_uid kTimeC kPidB 0 (of_int kUidB),
            event_close kTimeE kPidA, event_close kTimeG kPidB] (stp_ts p) (stp_pid p) = stp_uid p"
    and "parent_child_finds_uid tlo p \<longleftrightarrow> slice_uid_at d
           [event_open_uid kTimeA kPidA 0 (of_int kUidA), event_open kTimeC kPidB kPidA, event_close kTimeE kPidB]
           (stp_ts p) (stp_pid p) = stp_uid p"
  using contract_search [OF assms]
  by (simp_all add: pids_end_on_close_def open_after_open_finds_uid_def overlapping_ranges_finds_uid_def
                    parent_child_finds_uid_def slice_matches_def)

text \<open>The depth of a lookup given as a numeral unfolds one parent at a time.\<close>

lemma lookup_depth_numeral [simp]:
  "slice_uid_at (numeral k) = slice_uid_at (Suc (pred_numeral k))"
  "slice_uid_at 1 = slice_uid_at (Suc 0)"
  "uid_at_open (numeral k) = uid_at_open (Suc (pred_numeral k))"
  "uid_at_open 1 = uid_at_open (Suc 0)"
  by (simp_all add: numeral_eq_Suc)

lemma timeline_suite_passesD:
  assumes "timeline_suite_passes tlo"
  shows "p \<in> set open_and_close_single_values \<Longrightarrow> pids_end_on_close tlo p"
    and "p \<in> set open_after_open_values \<Longrightarrow> open_after_open_finds_uid tlo p"
    and "p \<in> set overlapping_ranges_values \<Longrightarrow> overlapping_ranges_finds_uid tlo p"
    and "p \<in> set parent_child_values \<Longrightarrow> parent_child_finds_uid tlo p"
  using assms by (simp_all add: timeline_suite_passes_def list_all_iff)

lemmas timeline_tests = pids_end_on_close_def open_after_open_finds_uid_def
  overlapping_ranges_finds_uid_def parent_child_finds_uid_def slice_matches_def

lemmas timeline_values = open_and_close_single_values_def open_after_open_values_def
  overlapping_ranges_values_def parent_child_values_def

lemmas timeline_eval = latest_event_def event_open_def event_open_uid_def event_close_def
  SliceTestParams_def timeline_consts

section \<open>What the suite checks\<close>

text \<open>
  The expected values of the test file agree with the contract: every timeline that
  meets it, following at least two levels of parents, passes all four suites.
\<close>

lemma timeline_contract_passes_suite:
  assumes contract: "timeline_contract d tlo" and depth: "2 \<le> d"
  shows "timeline_suite_passes tlo"
proof -
  from depth obtain k where k: "d = Suc (Suc k)"
    by (metis add_2_eq_Suc le_Suc_ex)
  show ?thesis
    by (simp add: timeline_suite_passes_def contract_tests [OF contract] k timeline_values timeline_eval)
qed

lemma spec_timeline_passes_suite:
  "timeline_contract 2 (spec_timeline 2) \<and> timeline_suite_passes (spec_timeline 2)"
  using timeline_contract_passes_suite [OF spec_timeline_contract [of 2]] spec_timeline_contract [of 2]
  by simp

text \<open>
  The suite does not fix when a child inherits its parent's uid: a timeline that takes
  the uid the parent had when the child opened passes every test, yet differs from the
  contract once the parent is reopened with another uid while the child lives.
\<close>

lemma timeline_suite_parent_time_gap:
  "timeline_suite_passes (parent_at_open_timeline 2) \<and> \<not> timeline_contract 2 (parent_at_open_timeline 2)"
proof
  show "timeline_suite_passes (parent_at_open_timeline 2)"
    by (simp add: timeline_suite_passes_def timeline_tests parent_at_open_timeline_def timeline_values
                  timeline_eval)
  let ?evs = "[event_open_uid kTimeA kPidA 0 (of_int kUidA), event_open kTimeC kPidB kPidA,
               event_open_uid kTimeD kPidA 0 (of_int kUidB)]"
  have "uid_at_open 2 ?evs kTimeE kPidB \<noteq> slice_uid_at 2 ?evs kTimeE kPidB"
    by (simp add: timeline_eval)
  then have "uid_at_open 2 \<noteq> slice_uid_at 2" by metis
  then show "\<not> timeline_contract 2 (parent_at_open_timeline 2)"
    by (simp only: parent_at_open_timeline_def contract_timeline_of not_False_eq_True)
qed

end
