(* ===== verification/Spec2Isabelle.thy ===== *)
theory Spec2Isabelle
  imports SetIdStorage StatusParse DataSourceState ProcStats ProcessDump Poller DataSourceEvents ThreadTimeline
begin

text \<open>
  \<^bold>\<open>A verification library for two parts of perfetto.\<close>

  The sources under \<^verbatim>\<open>src/\<close> hold two unrelated pieces of perfetto:
  \<^item> \<^verbatim>\<open>src/trace_processor/db/storage/set_id_storage.h\<close> declares \<^verbatim>\<open>SetIdStorage\<close>,
    the storage of a column of "set ids" (a sorted \<^verbatim>\<open>uint32_t\<close> column in which
    \<open>value[i] \<le> i\<close>), with \<^verbatim>\<open>Search\<close>, \<^verbatim>\<open>IndexSearch\<close>, \<^verbatim>\<open>Sort\<close>,
    \<^verbatim>\<open>StableSort\<close>, \<^verbatim>\<open>Serialize\<close> and \<^verbatim>\<open>size\<close>. Only the declaration is under
    \<^verbatim>\<open>src/\<close>; the bodies are modelled from \<^verbatim>\<open>spec.md\<close> (sections 3 and 4). The same
    file continues (from its line 74) with the gtest suite of the trace redactor's
    \<^verbatim>\<open>ProcessThreadTimeline\<close>, whose implementation is not under \<^verbatim>\<open>src/\<close>.
  \<^item> \<^verbatim>\<open>src/traced/probes/ps/process_stats_data_source.cc\<close> is the
    \<^verbatim>\<open>ProcessStatsDataSource\<close> of the tracing daemon's probes: it reads procfs and
    writes process trees (pids, parents, uids, command lines, threads) and per-process
    statistics (memory counters, oom score, open fds) as trace packets.

  \<^bold>\<open>Theories.\<close>
  \<^item> \<open>Prelude\<close>: the machine-integer types, the \<^verbatim>\<open>std::string\<close> search primitives
    (\<open>find_idx\<close>, \<open>find_from\<close>, \<open>find_sub\<close>, \<open>substr\<close>, \<open>cstr\<close>) and their lemmas.
  \<^item> \<open>SetIdStorage\<close>: the column as a record of \<open>u32\<close> values, the invariant
    \<open>setid_invariant\<close>, the binary search \<open>lower_search\<close> with the value-narrowed lower
    bound (\<open>narrow\<close>), \<open>binary_search_intrinsic\<close> and \<open>search\<close> (\<^verbatim>\<open>Search\<close>),
    \<open>index_search\<close> (\<^verbatim>\<open>IndexSearch\<close>), \<open>setid_sort\<close> (a quicksort, \<^verbatim>\<open>Sort\<close>),
    \<open>setid_stable_sort\<close> (a merge sort, \<^verbatim>\<open>StableSort\<close>), \<open>serialize\<close> into a sink of
    bounded room (\<^verbatim>\<open>Serialize\<close>, failure as \<open>Inl\<close>) and \<open>storage_size\<close>
    (\<^verbatim>\<open>size()\<close>, the cast to 32 bits). Claims C1 to C7: search returns exactly the
    matching rows of the range, as one range except for Ne; the narrowed binary search
    finds the same boundary as a linear scan; index search, sorted or not, reports the
    matching supplied rows; both sorts sort and permute, the stable one stably; the
    serialisation appends the whole column and round-trips. The spec's worked example is
    evaluated as a lemma.
  \<^item> \<open>StatusParse\<close>: \<^verbatim>\<open>ReadNextNumericDir\<close>, \<^verbatim>\<open>ToInt\<close>, \<^verbatim>\<open>ToU32\<close>,
    \<^verbatim>\<open>ReadProcStatusEntry\<close> and \<^verbatim>\<open>ReadNamespacedTids\<close>, over a model of
    \<open>strtol\<close>/\<open>atoi\<close> and of perfetto's \<^verbatim>\<open>CStringToInt32\<close> and
    \<^verbatim>\<open>StringSplitter\<close> (base code outside \<^verbatim>\<open>src/\<close>). Claims C8 to C10: the
    value after the first occurrence of the key is read back, wherever that occurrence
    is, so a process name containing \<^verbatim>\<open>Uid:\<close> spoofs the entry; a value never holds a
    newline nor starts with a blank; the directory scan returns the first numeric
    directory.
  \<^item> \<open>DataSourceState\<close>: the object state \<open>ds_state\<close> and the packet builder
    (\<^verbatim>\<open>StartNewPacketIfNeeded\<close>, \<^verbatim>\<open>GetOrCreatePsTree\<close>, \<^verbatim>\<open>GetOrCreateStats\<close>,
    \<^verbatim>\<open>GetOrCreateStatsProcess\<close>, \<^verbatim>\<open>FinalizeCurPacket\<close>,
    \<^verbatim>\<open>CacheProcFsScanStartTimestamp\<close>, \<^verbatim>\<open>ClearIncrementalState\<close>), the
    constructor and Tick's timer and cache expiry. The open packet is a list of nested
    messages and each \<^verbatim>\<open>cur_*\<close> pointer a flag naming the last one;
    \<open>builder_step\<close> is the step function over a datatype of every builder operation.
    Claims C11 to C16: the pointer invariant \<open>packet_inv\<close> holds after every
    sequence of operations from construction; the incremental-state flag reaches exactly
    the next packet started and no operation but ClearIncrementalState creates or loses
    it; the constructor's poll period as a function of the configured one, and the
    cache lifetime in ticks and in milliseconds; the cache counter stays below the ttl
    and the cache is cleared within ttl ticks. Lemmas also show that finalising commits the open packet
    and clears every pointer, and that the Tick delay lies in \<open>(0, period]\<close>.
  \<^item> \<open>ProcStats\<close>: the procfs environment \<open>procfs\<close> and \<^verbatim>\<open>WriteMemCounters\<close> (its
    character automaton: key and value buffers and the \<^verbatim>\<open>kKey\<close>/\<^verbatim>\<open>kSeparator\<close>/
    \<^verbatim>\<open>kValue\<close> state), \<^verbatim>\<open>WriteSingleFd\<close>, \<^verbatim>\<open>WriteFds\<close>, \<^verbatim>\<open>OnFds\<close>. Claims C17
    to C20: the automaton refines a line-by-line reading; the result says whether a
    \<^verbatim>\<open>VmSize\<close> line was seen; an fd is written once; in any status text, a counter
    line without value takes the previous line's value. StatusParse also holds C21 and C22: the namespace
    levels of \<^verbatim>\<open>NSpid:\<close> are copied when they fit, and a deeper nesting fails the
    \<^verbatim>\<open>PERFETTO_CHECK\<close>.
  \<^item> \<open>ProcessDump\<close>: \<^verbatim>\<open>WriteProcess\<close>, \<^verbatim>\<open>WriteThread\<close>,
    \<^verbatim>\<open>WriteProcessOrThread\<close>, \<^verbatim>\<open>WriteProcessTree\<close>, \<^verbatim>\<open>OnPids\<close>,
    \<^verbatim>\<open>OnRenamePids\<close> and \<^verbatim>\<open>WriteAllProcesses\<close> (its two directory loops
    \<open>scan_procs\<close> and \<open>scan_tasks\<close>), each returning \<open>nstid_error + ds_state\<close>.
    Generic lemmas carry any property kept by WriteProcess and WriteThread through
    WriteProcessOrThread, WriteProcessTree and the scans. \<open>write_all_fds\<close> is the
    start-up fd loop of WriteAllProcesses; \<open>numeric_dirs\<close> lists what the
    \<^verbatim>\<open>ReadNextNumericDir\<close> loop visits and \<open>dumpable\<close> says which pids
    WriteProcessOrThread records. Claims C23 to C26: WriteProcess appends the process
    entry it read; seen pids are not dumped again; WriteAllProcesses records every live
    process and thread of \<^verbatim>\<open>/proc\<close> as seen; and its fd loop leaves at most one
    stats-process entry, holding every fd it records, whatever the pids.
  \<^item> \<open>Poller\<close>: \<^verbatim>\<open>WriteAllProcessStats\<close> (the loop \<open>stats_scan\<close> over
    \<open>stats_for_pid\<close>, the skip list of kernel threads, the oom score), the whole of
    \<^verbatim>\<open>Tick\<close> and \<^verbatim>\<open>Start\<close>. Claim C31: a pid without memory counters is marked in
    the skip list; a lemma shows that it stays marked through later scans.
  \<^item> \<open>DataSourceEvents\<close>: the entry points as a datatype \<open>ds_event\<close>, the inductive
    step relation \<open>ds_step\<close> and the states \<open>ds_reachable\<close> from the constructor; the
    invariant \<open>ds_inv\<close> is proved for each step and, by rule induction, for every
    reachable state. Claims C27 to C30: between entry points no packet is open and no
    pointer is set (the DCHECKs of Flush, WriteAllProcesses, WriteProcessTree and
    OnRenamePids); every seen pid is in the tid map; while polling, the cache-tick
    counter is below the ttl; and after a Tick whose \<^verbatim>\<open>opendir\<close> of \<^verbatim>\<open>/proc\<close> fails,
    the scan timestamp stays cached and stamps the next packet, whenever it starts.
  \<^item> Frames: \<open>ds_frame\<close> (DataSourceState) forgets what the builder and the statistics
    code write, and \<open>cfg_frame\<close> (ProcessDump) also the bookkeeping of the dumps and the
    poll; each operation is shown to keep one of them, in the theory that defines it,
    which gives the configuration, the tick counter and the tid map across whole
    entry points.
  \<^item> C32 (SetIdStorage): with an iteration budget (\<open>lower_search_fuel\<close>), the binary
    search returns within \<open>k\<close> iterations on fewer than \<open>2^k\<close> rows.
  \<^item> \<open>ThreadTimeline\<close>: the \<^verbatim>\<open>ProcessThreadTimeline\<close> test suite. The class under
    test is an interface, the record \<open>'t timeline_ops\<close> of its default constructor,
    \<^verbatim>\<open>Append\<close>, \<^verbatim>\<open>Sort\<close> and \<^verbatim>\<open>Search\<close> over an arbitrary state type, with the
    \<^verbatim>\<open>Event\<close> and \<^verbatim>\<open>Slice\<close> types as the tests use them; \<^verbatim>\<open>SliceTestParams\<close>,
    the constants (the \<^verbatim>\<open>int32_t\<close> uids converted to \<^verbatim>\<open>uint64_t\<close> by \<open>of_int\<close>),
    the four parameterised tests and their value lists are definitions, and
    \<open>timeline_suite_passes\<close> runs every test on every value. \<open>timeline_contract\<close> is
    the behaviour the tests' comments describe: the newest event of the pid at or before
    the timestamp decides, a Close gives no uid, and an open event without a uid
    inherits its parent's uid at the same timestamp, following at most \<open>d\<close> parents.
    No claim is made of the suite: without the class under test, what can be proved of
    it is its evaluation at its fixed inputs. Lemmas record that every timeline meeting
    the contract with \<open>d \<ge> 2\<close> passes it, and that it also accepts a timeline
    inheriting the parent's uid at the child's open time, which the contract does not.

  \<^bold>\<open>Modelling choices.\<close> Integers keep the source's width where it matters
  (\<open>u32\<close> counters and periods, \<open>u64\<close> timestamps, \<^verbatim>\<open>int\<close> casts through \<open>sint\<close>).
  The boot clock is a counter in the state, advanced by one at each read; the wall
  clock of Tick and the procfs contents are arguments of the events. A
  \<^verbatim>\<open>PERFETTO_CHECK\<close> failure is an \<open>Inl\<close> value and a faulting event has no successor;
  \<^verbatim>\<open>PERFETTO_DCHECK\<close>s compile away in release builds and are proved as invariants
  instead (C27). All loops are structural recursions, folds over finite lists, or
  \<open>function\<close>s terminating on the length of the remaining directory stream or on the
  width of the search range, so no fuel is needed to define them; the fuel of C32
  only measures the iterations of the binary search. The \<^verbatim>\<open>TidArray\<close> length is
  the parameter \<open>tlen\<close>, since the header that fixes it is not under \<^verbatim>\<open>src/\<close>.

  \<^bold>\<open>Not modelled.\<close> The task runner (the posting and the weak pointer of Tick: a
  posted Tick is an event), the trace writer's transport (Flush leaves the modelled
  state as it is), metatrace and logging. The implementation of \<^verbatim>\<open>ProcessThreadTimeline\<close> is
  neither under \<^verbatim>\<open>src/\<close> nor described by the specification, so only its tests are
  modelled, against the interface and the contract above.
\<close>

end
